theory Spec2Isabelle
  imports Main "HOL-Library.Sublist" "HOL-Library.AList"
begin

section \<open>JavaScript values and strings\<close>

text \<open>
  The values a configuration tree holds: what \<^verbatim>\<open>JSON.parse\<close> yields for a file of nested
  objects with scalar leaves, plus \<^verbatim>\<open>undefined\<close>. \<open>JNative\<close> stands for a value of the
  runtime that no file can contain (a method inherited from a prototype), named by a label.
  An object is the list of its own properties in \<^verbatim>\<open>Object.keys\<close> order.
\<close>

datatype jsval =
    JUndefined
  | JNull
  | JBool bool
  | JNum int
  | JStr string
  | JObj "(string \<times> jsval) list"
  | JNative string

text \<open>What a call can throw.\<close>

datatype exn = TypeError | ParseError

text \<open>
  \<^verbatim>\<open>_.includes(key, delimiter)\<close> on two strings is \<^verbatim>\<open>key.indexOf(delimiter) > -1\<close>:
  some position of \<open>key\<close> starts with \<open>delimiter\<close>. The empty string occurs in every string.
\<close>

fun includes_str :: "string \<Rightarrow> string \<Rightarrow> bool" where
  "includes_str [] d = (d = [])"
| "includes_str (c # cs) d = (prefix d (c # cs) \<or> includes_str cs d)"

text \<open>
  \<^verbatim>\<open>String.prototype.split\<close> with a string separator. \<open>split_from d acc s\<close> scans \<open>s\<close> from the
  left, \<open>acc\<close> being the piece read since the last separator; a match of the separator closes
  the piece and the scan goes on behind the match. The empty separator splits into characters
  (and the empty string into no piece at all).
\<close>

function split_from :: "string \<Rightarrow> string \<Rightarrow> string \<Rightarrow> string list" where
  "split_from d acc [] = [acc]"
| "split_from d acc (c # cs) =
     (if d \<noteq> [] \<and> prefix d (c # cs)
      then acc # split_from d [] (drop (length d) (c # cs))
      else split_from d (acc @ [c]) cs)"
  by pat_completeness auto
termination
  by (relation "measure (\<lambda>(d, acc, s). length s)") auto

definition split_str :: "string \<Rightarrow> string \<Rightarrow> string list" where
  "split_str s d = (if d = [] then map (\<lambda>c. [c]) s else split_from d [] s)"

text \<open>\<^verbatim>\<open>Array.prototype.join\<close> on an array of strings.\<close>

fun join_str :: "string \<Rightarrow> string list \<Rightarrow> string" where
  "join_str sep [] = []"
| "join_str sep [x] = x"
| "join_str sep (x # y # ys) = x @ sep @ join_str sep (y # ys)"

section \<open>The key resolver\<close>

definition getConfigFileName :: "string \<Rightarrow> string" where
  "getConfigFileName configName = configName @ ''.json''"

definition cleanKey :: "string \<Rightarrow> string \<Rightarrow> string" where
  "cleanKey key delimiter =
     (if includes_str key delimiter then join_str '':'' (split_str key delimiter) else key)"

text \<open>
  The resolver in the words of the specification: every occurrence of the delimiter, read from
  the left and without overlap, is replaced by the canonical separator.
\<close>

function replace_all :: "string \<Rightarrow> string \<Rightarrow> string \<Rightarrow> string" where
  "replace_all d r [] = []"
| "replace_all d r (c # cs) =
     (if d \<noteq> [] \<and> prefix d (c # cs)
      then r @ replace_all d r (drop (length d) (c # cs))
      else c # replace_all d r cs)"
  by pat_completeness auto
termination
  by (relation "measure (\<lambda>(d, r, s). length s)") auto

definition resolveKey_spec :: "string \<Rightarrow> string \<Rightarrow> string" where
  "resolveKey_spec raw delimiter = replace_all delimiter '':'' raw"

section \<open>The host of a call\<close>

text \<open>
  What a call reads from outside the module: the process (\<^verbatim>\<open>process.env.NODE_ENV\<close>,
  \<^verbatim>\<open>process.argv\<close>), the trees that the store library ingests from the command line and
  from the environment variables, the file system, and the properties that the runtime gives
  a value beyond the own properties of a parsed object (members inherited from a prototype,
  the length and the characters of a string), and what the store library's \<^verbatim>\<open>common.merge\<close>
  makes of a list of objects. A file holds a parsed JSON value, or \<open>None\<close> when its text does
  not parse.
\<close>

datatype fsnode = Directory | File "jsval option"

record host =
  NODE_ENV :: "string option"
  argv :: "string list"
  argvStore :: jsval
  envStore :: jsval
  files :: "string \<Rightarrow> fsnode option"
  builtin :: "jsval \<Rightarrow> string \<Rightarrow> jsval option"
  merge :: "jsval list \<Rightarrow> jsval"

definition existsSync :: "host \<Rightarrow> string \<Rightarrow> bool" where
  "existsSync h p = (files h p \<noteq> None)"

text \<open>
  \<^verbatim>\<open>path.join\<close> (POSIX) of a directory and a file name. The non-empty arguments are joined
  with a slash and the result is normalized: empty segments and \<open>.\<close> segments go, a \<open>..\<close>
  segment takes the segment before it away, and stays itself where a relative path has none
  before it; a trailing slash stays, and nothing at all becomes \<open>.\<close>.
\<close>

fun normalize_segments :: "bool \<Rightarrow> string list \<Rightarrow> string list \<Rightarrow> string list" where
  "normalize_segments allowAboveRoot res [] = res"
| "normalize_segments allowAboveRoot res (seg # segs) =
     (if seg = [] \<or> seg = ''.'' then normalize_segments allowAboveRoot res segs
      else if seg = ''..'' then
        (if res \<noteq> [] \<and> last res \<noteq> ''..''
         then normalize_segments allowAboveRoot (butlast res) segs
         else if allowAboveRoot then normalize_segments allowAboveRoot (res @ [''..'']) segs
         else normalize_segments allowAboveRoot res segs)
      else normalize_segments allowAboveRoot (res @ [seg]) segs)"

definition normalize :: "string \<Rightarrow> string" where
  "normalize p =
     (if p = [] then ''.''
      else
        (let isAbsolute = (hd p = CHR ''/'');
             trailingSeparator = (last p = CHR ''/'');
             body = join_str ''/'' (normalize_segments (\<not> isAbsolute) [] (split_str p ''/''));
             body1 = (if body = [] \<and> \<not> isAbsolute then ''.'' else body);
             body2 = (if body1 \<noteq> [] \<and> trailingSeparator then body1 @ ''/'' else body1)
         in if isAbsolute then CHR ''/'' # body2 else body2))"

definition path_join :: "string \<Rightarrow> string \<Rightarrow> string" where
  "path_join dir fileName =
     (let joined = (if dir = [] then fileName
                    else if fileName = [] then dir
                    else dir @ ''/'' @ fileName)
      in if joined = [] then ''.'' else normalize joined)"

section \<open>The store library\<close>

text \<open>
  The module keeps its sources in the provider of the \<^verbatim>\<open>nconf\<close> library, which is not part of
  the repository; the definitions of this section embed the functions of the library that the
  module calls (\<^verbatim>\<open>Provider.add\<close>, \<^verbatim>\<open>Provider.file\<close>, \<^verbatim>\<open>Provider.overrides\<close>, \<^verbatim>\<open>Provider.get\<close>,
  and the \<^verbatim>\<open>get\<close> and \<^verbatim>\<open>loadSync\<close> of its stores). The provider holds its stores in a plain
  object keyed by store name, and a lookup asks the stores in \<^verbatim>\<open>Object.keys\<close> order. Adding a
  store under a name assigns that property: a name already present keeps its place in the
  order, a new name goes to the end, and a new name that is an array index (a canonical
  decimal numeral below \<open>2^32 - 1\<close>) goes before every other name, in numeric order. A
  provider starts without stores.
\<close>

definition is_digit :: "char \<Rightarrow> bool" where
  "is_digit c = (c \<in> set ''0123456789'')"

definition index_value :: "string \<Rightarrow> nat" where
  "index_value s = foldl (\<lambda>n c. 10 * n + (of_char c - 48)) 0 s"

definition is_index :: "string \<Rightarrow> bool" where
  "is_index s = (s \<noteq> [] \<and> list_all is_digit s \<and> (s = ''0'' \<or> hd s \<noteq> CHR ''0'')
     \<and> index_value s < 4294967295)"

fun put_index :: "string \<Rightarrow> 'a \<Rightarrow> (string \<times> 'a) list \<Rightarrow> (string \<times> 'a) list" where
  "put_index n v [] = [(n, v)]"
| "put_index n v ((m, w) # rest) =
     (if is_index m \<and> index_value m < index_value n then (m, w) # put_index n v rest
      else (n, v) # (m, w) # rest)"

definition obj_set :: "string \<Rightarrow> 'a \<Rightarrow> (string \<times> 'a) list \<Rightarrow> (string \<times> 'a) list" where
  "obj_set n v kvs =
     (if is_index n \<and> n \<notin> fst ` set kvs then put_index n v kvs else AList.update n v kvs)"

text \<open>
  The lookup of one store: the key is split on the colon into a path, and the path is walked
  through own properties of objects; anything else on the way gives \<^verbatim>\<open>undefined\<close>.
\<close>

definition own :: "jsval \<Rightarrow> string \<Rightarrow> jsval option" where
  "own target key = (case target of JObj kvs \<Rightarrow> map_of kvs key | _ \<Rightarrow> None)"

fun memory_get :: "jsval \<Rightarrow> string list \<Rightarrow> jsval" where
  "memory_get target [] = target"
| "memory_get target (key # path) =
     (case own target key of Some v \<Rightarrow> memory_get v path | None \<Rightarrow> JUndefined)"

definition common_path :: "string \<Rightarrow> string list" where
  "common_path key = split_str key '':''"

text \<open>
  The lookup of the provider. The stores are asked in order as long as no answer stands. An
  answer that is an object is put aside and the scan goes on; any other defined answer stands
  and ends the scan. When objects were put aside, the result is their merge, the object of the
  last store first and the object of the first store over it, whatever answer stands;
  otherwise it is the answer that stands, or \<^verbatim>\<open>undefined\<close>. The merge itself
  (\<^verbatim>\<open>common.merge\<close>) is the one of the host. A lookup is embedded by the value it returns
  from the stores as they are when it starts: the library builds the merged object afresh,
  but nested objects of the answers can become part of it and be written to.
\<close>

definition is_object :: "jsval \<Rightarrow> bool" where
  "is_object v = (case v of JObj kvs \<Rightarrow> True | _ \<Rightarrow> False)"

fun execute_get :: "(string \<times> jsval) list \<Rightarrow> string \<Rightarrow> jsval list \<Rightarrow> jsval \<times> jsval list" where
  "execute_get [] key mergeObjs = (JUndefined, mergeObjs)"
| "execute_get ((name, store) # rest) key mergeObjs =
     (let response = memory_get store (common_path key)
      in if response = JUndefined then execute_get rest key mergeObjs
         else if is_object response then execute_get rest key (mergeObjs @ [response])
         else (response, mergeObjs))"

definition provider_get :: "host \<Rightarrow> (string \<times> jsval) list \<Rightarrow> string \<Rightarrow> jsval" where
  "provider_get h stores key =
     (case execute_get stores key [] of
        (response, mergeObjs) \<Rightarrow> if mergeObjs \<noteq> [] then merge h (rev mergeObjs) else response)"

text \<open>
  \<^verbatim>\<open>nconf.argv()\<close>, \<^verbatim>\<open>nconf.env()\<close>, \<^verbatim>\<open>nconf.overrides(options)\<close> and \<^verbatim>\<open>nconf.file(key, path)\<close>.
  Each one assigns the store of its name. The literal store of the overrides is the options
  object itself, to which the library adds its \<^verbatim>\<open>type\<close>. \<^verbatim>\<open>file\<close> writes a property of its
  second argument before anything else, so an undefined path is a \<^verbatim>\<open>TypeError\<close>; otherwise
  the store is assigned first and loaded next: a path that does not exist loads the empty
  object, a file that does not parse throws and leaves the empty store behind.
\<close>

definition nconf_argv :: "host \<Rightarrow> (string \<times> jsval) list \<Rightarrow> (string \<times> jsval) list" where
  "nconf_argv h stores = obj_set ''argv'' (argvStore h) stores"

definition nconf_env :: "host \<Rightarrow> (string \<times> jsval) list \<Rightarrow> (string \<times> jsval) list" where
  "nconf_env h stores = obj_set ''env'' (envStore h) stores"

definition nconf_overrides ::
  "(string \<times> jsval) list \<Rightarrow> (string \<times> jsval) list \<Rightarrow> (string \<times> jsval) list" where
  "nconf_overrides options stores =
     obj_set ''overrides''
       (JObj (case map_of options ''type'' of
                None \<Rightarrow> options @ [(''type'', JStr ''literal'')]
              | Some t \<Rightarrow> options))
       stores"

definition nconf_file ::
  "host \<Rightarrow> string \<Rightarrow> string option \<Rightarrow> (string \<times> jsval) list
     \<Rightarrow> exn option \<times> (string \<times> jsval) list" where
  "nconf_file h key options stores =
     (case options of
        None \<Rightarrow> (Some TypeError, stores)
      | Some file \<Rightarrow>
          (case files h file of
             None \<Rightarrow> (None, obj_set key (JObj []) stores)
           | Some node \<Rightarrow>
               (case node of
                  Directory \<Rightarrow> (Some ParseError, obj_set key (JObj []) stores)
                | File content \<Rightarrow>
                    (case content of
                       None \<Rightarrow> (Some ParseError, obj_set key (JObj []) stores)
                     | Some data \<Rightarrow> (None, obj_set key data stores)))))"

text \<open>
  The stores that come before the store of a name in the lookup order, and the answers that
  the stores of a list give to a key, in order, those without an answer left out.
\<close>

definition precedes :: "string \<Rightarrow> (string \<times> 'a) list \<Rightarrow> (string \<times> 'a) list" where
  "precedes name stores = takeWhile (\<lambda>p. fst p \<noteq> name) stores"

definition answers :: "(string \<times> jsval) list \<Rightarrow> string \<Rightarrow> jsval list" where
  "answers stores key =
     filter (\<lambda>r. r \<noteq> JUndefined) (map (\<lambda>p. memory_get (snd p) (common_path key)) stores)"

section \<open>The session\<close>

text \<open>
  The fields of a \<^verbatim>\<open>ServerConfig\<close> object. \<open>nconf\<close> is \<open>None\<close> as long as the constructor has
  not attached the provider; a logger is a reference to the caller's logger object.
  \<open>logged\<close> is the trace of the lines the session has logged, each with the logger it went to
  (\<open>None\<close> for the console).
\<close>

datatype level = LInfo | LWarn | LError

record session =
  configDirectory :: "string option"
  delimiter :: string
  debug :: bool
  nconf :: "(string \<times> jsval) list option"
  logger :: "nat option"
  logged :: "(nat option \<times> level \<times> string) list"

definition info :: "string \<Rightarrow> session \<Rightarrow> session" where
  "info msg s = s\<lparr>logged := logged s @ [(logger s, LInfo, msg)]\<rparr>"

definition warn :: "string \<Rightarrow> session \<Rightarrow> session" where
  "warn msg s = s\<lparr>logged := logged s @ [(logger s, LWarn, msg)]\<rparr>"

definition error :: "string \<Rightarrow> session \<Rightarrow> session" where
  "error msg s = s\<lparr>logged := logged s @ [(logger s, LError, msg)]\<rparr>"

definition ServerConfig :: "host \<Rightarrow> string option \<Rightarrow> nat option \<Rightarrow> session" where
  "ServerConfig h configJsonDirectory lg =
     (let this = \<lparr>configDirectory = configJsonDirectory, delimiter = ''.'', debug = False,
                  nconf = None, logger = None, logged = []\<rparr>
      in case configJsonDirectory of
           None \<Rightarrow> error ''Config directory is invalid.'' this
         | Some dir \<Rightarrow>
             if dir = [] \<or> \<not> existsSync h dir
             then error ''Config directory is invalid.'' this
             else this\<lparr>nconf := Some (nconf_env h (nconf_argv h [])), logger := lg\<rparr>)"

definition setEnvironmentName :: "host \<Rightarrow> string \<Rightarrow> session \<Rightarrow> (exn + unit) \<times> session" where
  "setEnvironmentName h defaultConfig s =
     (let fallback =
            (if length (argv h) > 2
             then (last (argv h), info (''Setting environment name to: '' @ last (argv h)) s)
             else (defaultConfig, info (''Setting environment name to: '' @ defaultConfig) s));
          (configName, s1) =
            (case NODE_ENV h of
               None \<Rightarrow> fallback
             | Some e \<Rightarrow> if e = [] then fallback else (e, s))
      in case nconf s1 of
           None \<Rightarrow> (Inl TypeError, s1)
         | Some stores \<Rightarrow>
             (Inr (),
              s1\<lparr>nconf := Some (nconf_overrides [(''environmentName'', JStr configName)] stores)\<rparr>))"

definition loadEnvironmentVariables :: "host \<Rightarrow> session \<Rightarrow> (exn + unit) \<times> session" where
  "loadEnvironmentVariables h s =
     (case nconf s of
        None \<Rightarrow> (Inl TypeError, s)
      | Some stores \<Rightarrow> (Inr (), s\<lparr>nconf := Some (nconf_env h (nconf_argv h stores))\<rparr>))"

definition setDebugMode :: "bool \<Rightarrow> session \<Rightarrow> session" where
  "setDebugMode debugModeOn s = s\<lparr>debug := debugModeOn\<rparr>"

text \<open>
  \<^verbatim>\<open>path.join\<close> throws on a directory that is not a string. The result is the path, or
  \<open>None\<close> for \<^verbatim>\<open>undefined\<close> when no file is there.
\<close>

definition getConfigFilePath ::
  "host \<Rightarrow> string \<Rightarrow> session \<Rightarrow> (exn + string option) \<times> session" where
  "getConfigFilePath h configName s =
     (case configDirectory s of
        None \<Rightarrow> (Inl TypeError, s)
      | Some dir \<Rightarrow>
          (let fileName = getConfigFileName configName;
               tempPath = path_join dir fileName
           in if existsSync h tempPath
              then (Inr (Some tempPath), info (''Loading config file: '' @ fileName) s)
              else (Inr None,
                    error (''Failed to load config file for configuration: '' @ configName) s)))"

definition loadConfig :: "host \<Rightarrow> string \<Rightarrow> session \<Rightarrow> (exn + unit) \<times> session" where
  "loadConfig h configName s =
     (case getConfigFilePath h configName s of
        (Inl e, s1) \<Rightarrow> (Inl e, s1)
      | (Inr configFilePath, s1) \<Rightarrow>
          (case nconf s1 of
             None \<Rightarrow> (Inl TypeError, s1)
           | Some stores \<Rightarrow>
               (case nconf_file h configName configFilePath stores of
                  (Some e, stores1) \<Rightarrow> (Inl e, s1\<lparr>nconf := Some stores1\<rparr>)
                | (None, stores1) \<Rightarrow>
                    (Inr (), s1\<lparr>nconf := Some (nconf_env h (nconf_argv h stores1))\<rparr>))))"

definition loadConfigWithPath ::
  "host \<Rightarrow> string \<Rightarrow> string \<Rightarrow> session \<Rightarrow> (exn + unit) \<times> session" where
  "loadConfigWithPath h configName filePath s =
     (if existsSync h filePath
      then
        (let s1 = info (''Loading config file at path: '' @ filePath) s
         in case nconf s1 of
              None \<Rightarrow> (Inl TypeError, s1)
            | Some stores \<Rightarrow>
                (case nconf_file h configName (Some filePath) stores of
                   (Some e, stores1) \<Rightarrow> (Inl e, s1\<lparr>nconf := Some stores1\<rparr>)
                 | (None, stores1) \<Rightarrow>
                     (Inr (), s1\<lparr>nconf := Some (nconf_env h (nconf_argv h stores1))\<rparr>)))
      else (Inr (), error (''Failed to load config file at path: '' @ filePath) s))"

definition loadEnvironmentConfig :: "host \<Rightarrow> string \<Rightarrow> session \<Rightarrow> (exn + unit) \<times> session" where
  "loadEnvironmentConfig h defaultConfig s =
     (let fallback =
            (if length (argv h) > 2
             then (last (argv h), info (''Running as: '' @ last (argv h)) s)
             else (defaultConfig, info (''Running as: '' @ defaultConfig) s));
          (configName, s1) =
            (case NODE_ENV h of
               None \<Rightarrow> fallback
             | Some e \<Rightarrow> if e = [] then fallback else (e, s))
      in case getConfigFilePath h configName s1 of
           (Inl e, s2) \<Rightarrow> (Inl e, s2)
         | (Inr configFilePath, s2) \<Rightarrow>
             (case nconf s2 of
                None \<Rightarrow> (Inl TypeError, s2)
              | Some stores \<Rightarrow>
                  (case (if configFilePath \<noteq> None
                         then nconf_file h configName configFilePath stores
                         else (None, stores)) of
                     (Some e, stores1) \<Rightarrow> (Inl e, s2\<lparr>nconf := Some stores1\<rparr>)
                   | (None, stores1) \<Rightarrow>
                       (Inr (),
                        s2\<lparr>nconf := Some (nconf_env h (nconf_argv h
                               (nconf_overrides [(''environmentName'', JStr configName)]
                                  stores1)))\<rparr>))))"

text \<open>The predicates of \<^verbatim>\<open>lodash\<close> that \<^verbatim>\<open>setDelimiter\<close> asks.\<close>

definition isUndefined :: "jsval \<Rightarrow> bool" where
  "isUndefined v = (v = JUndefined)"

definition isNull :: "jsval \<Rightarrow> bool" where
  "isNull v = (v = JNull)"

definition isString :: "jsval \<Rightarrow> bool" where
  "isString v = (case v of JStr x \<Rightarrow> True | _ \<Rightarrow> False)"

definition isEmpty :: "jsval \<Rightarrow> bool" where
  "isEmpty v = (case v of JStr x \<Rightarrow> x = [] | JObj kvs \<Rightarrow> kvs = [] | _ \<Rightarrow> True)"

definition setDelimiter :: "jsval \<Rightarrow> session \<Rightarrow> session" where
  "setDelimiter d s =
     (if isUndefined d \<or> isNull d \<or> isEmpty d \<or> \<not> isString d
      then error ''Invalid delimiter specified.'' s
      else (case d of JStr x \<Rightarrow> s\<lparr>delimiter := x\<rparr> | _ \<Rightarrow> s))"

text \<open>
  The property read \<^verbatim>\<open>currentValue[key]\<close>: a \<^verbatim>\<open>TypeError\<close> on \<^verbatim>\<open>undefined\<close> and \<^verbatim>\<open>null\<close>;
  on any other value the own property, else what the runtime supplies, else \<^verbatim>\<open>undefined\<close>.
\<close>

definition get_prop :: "host \<Rightarrow> jsval \<Rightarrow> string \<Rightarrow> exn + jsval" where
  "get_prop h v k =
     (case v of
        JUndefined \<Rightarrow> Inl TypeError
      | JNull \<Rightarrow> Inl TypeError
      | _ \<Rightarrow>
          (case own v k of
             Some x \<Rightarrow> Inr x
           | None \<Rightarrow> (case builtin h v k of Some x \<Rightarrow> Inr x | None \<Rightarrow> Inr JUndefined)))"

text \<open>The loop of \<^verbatim>\<open>get\<close> over the arguments behind the first.\<close>

fun traverse :: "host \<Rightarrow> string \<Rightarrow> jsval \<Rightarrow> string list \<Rightarrow> exn + jsval" where
  "traverse h d currentValue [] = Inr currentValue"
| "traverse h d currentValue (a # rest) =
     (case get_prop h currentValue (cleanKey a d) of
        Inl e \<Rightarrow> Inl e
      | Inr v \<Rightarrow> traverse h d v rest)"

definition get :: "host \<Rightarrow> string list \<Rightarrow> session \<Rightarrow> exn + jsval" where
  "get h arguments s =
     (case arguments of
        [] \<Rightarrow> Inr JNull
      | a # rest \<Rightarrow>
          (case nconf s of
             None \<Rightarrow> Inl TypeError
           | Some stores \<Rightarrow>
               traverse h (delimiter s) (provider_get h stores (cleanKey a (delimiter s))) rest))"

definition getEnvironmentName :: "host \<Rightarrow> session \<Rightarrow> exn + jsval" where
  "getEnvironmentName h s =
     (case nconf s of
        None \<Rightarrow> Inl TypeError
      | Some stores \<Rightarrow> Inr (provider_get h stores ''environmentName''))"

text \<open>
  The factory that the module exports, over the module's variable \<^verbatim>\<open>_instance\<close>: the session
  it returns and the new content of the variable.
\<close>

definition module_exports ::
  "host \<Rightarrow> string option \<Rightarrow> nat option \<Rightarrow> session option \<Rightarrow> session \<times> session option" where
  "module_exports h configJsonDirectory lg the_instance =
     (case the_instance of
        None \<Rightarrow> (let created = ServerConfig h configJsonDirectory lg in (created, Some created))
      | Some existing \<Rightarrow> (existing, Some existing))"

section \<open>The name resolution, factored out\<close>

text \<open>
  \<open>setEnvironmentName\<close> and \<open>loadEnvironmentConfig\<close> resolve the environment name in the same
  way, each in its own body. \<open>resolved_name\<close> is that resolution on its own: the \<^verbatim>\<open>NODE_ENV\<close>
  variable when it is set to a non-empty string, else the last command-line argument when
  \<^verbatim>\<open>process.argv\<close> is longer than two, else the default. \<open>after_resolving\<close> is the session
  behind the resolution, which logs the name unless it came from the variable. That the two
  methods compute just this is proved below (\<open>setEnvironmentName_unfold\<close>,
  \<open>loadEnvironmentConfig_unfold\<close>). \<open>override_store\<close> is the literal store that records the name,
  and \<open>parses\<close> says of a path that no file is there or the file holds JSON.
\<close>

definition resolved_name :: "host \<Rightarrow> string \<Rightarrow> string" where
  "resolved_name h defaultConfigName =
     (if NODE_ENV h \<noteq> None \<and> NODE_ENV h \<noteq> Some [] then the (NODE_ENV h)
      else if length (argv h) > 2 then last (argv h)
      else defaultConfigName)"

definition override_store :: "string \<Rightarrow> jsval" where
  "override_store name = JObj [(''environmentName'', JStr name), (''type'', JStr ''literal'')]"

definition parses :: "host \<Rightarrow> string \<Rightarrow> bool" where
  "parses h p =
     (case files h p of
        None \<Rightarrow> True
      | Some node \<Rightarrow> (case node of Directory \<Rightarrow> False | File content \<Rightarrow> content \<noteq> None))"

definition after_resolving :: "string \<Rightarrow> host \<Rightarrow> string \<Rightarrow> session \<Rightarrow> session" where
  "after_resolving label h defaultConfigName s =
     (if NODE_ENV h \<noteq> None \<and> NODE_ENV h \<noteq> Some [] then s
      else info (label @ resolved_name h defaultConfigName) s)"

section \<open>An example directory\<close>

text \<open>
  A directory \<^verbatim>\<open>cfg\<close> with the files \<^verbatim>\<open>all.json\<close>, \<^verbatim>\<open>local.json\<close>, \<^verbatim>\<open>staging.json\<close> and \<^verbatim>\<open>odd.json\<close>, a process
  started as \<^verbatim>\<open>node server.js\<close> without \<^verbatim>\<open>NODE_ENV\<close>, the session constructed over the
  directory, and the same process started with \<^verbatim>\<open>NODE_ENV=production\<close>. The merge of the
  example is the one of the library on objects whose keys hold no colon: the entries of each
  object are laid over what the objects before it gave, an object over an object entry by
  entry, any other value in place of what was there.
\<close>

fun deep :: "(string \<times> jsval) list \<Rightarrow> (string \<times> jsval) list \<Rightarrow> (string \<times> jsval) list" where
  "deep low [] = low"
| "deep low ((k, JObj hv) # high) =
     deep (obj_set k
             (case map_of low k of
                Some (JObj lv) \<Rightarrow> JObj (deep lv hv)
              | Some JNull \<Rightarrow> if hv = [] then JNull else JObj (deep [] hv)
              | _ \<Rightarrow> JObj hv)
             low)
          high"
| "deep low ((k, v) # high) = deep (obj_set k v low) high"

fun entries :: "jsval \<Rightarrow> (string \<times> jsval) list" where
  "entries (JObj kvs) = kvs"
| "entries v = []"

definition example_merge :: "jsval list \<Rightarrow> jsval" where
  "example_merge objs = JObj (foldl deep [] (map entries objs))"

definition all_json :: jsval where
  "all_json =
     JObj [(''name'', JStr ''base''),
           (''serverSettings'', JObj [(''port'', JNum 3000)]),
           (''db'', JObj [(''pool'', JObj [(''max'', JNum 5)])]),
           (''a.b'', JNum 1),
           (''environmentName'', JStr ''everywhere''),
           (''verbose'', JBool False),
           (''HOME'', JStr ''/srv'')]"

definition local_json :: jsval where
  "local_json =
     JObj [(''name'', JStr ''local''),
           (''serverSettings'', JObj [(''host'', JStr ''localhost'')])]"

definition staging_json :: jsval where
  "staging_json = JObj [(''environmentName'', JStr ''blue'')]"

definition odd_json :: jsval where
  "odd_json = JObj [(''environmentName'', JObj [(''color'', JStr ''blue'')])]"

definition example_files :: "string \<Rightarrow> fsnode option" where
  "example_files p =
     (if p = ''cfg'' then Some Directory
      else if p = ''cfg/all.json'' then Some (File (Some all_json))
      else if p = ''cfg/local.json'' then Some (File (Some local_json))
      else if p = ''cfg/staging.json'' then Some (File (Some staging_json))
      else if p = ''cfg/odd.json'' then Some (File (Some odd_json))
      else None)"

definition example_host :: host where
  "example_host =
     \<lparr>NODE_ENV = None, argv = [''node'', ''server.js''],
      argvStore = JObj [(''verbose'', JBool True)],
      envStore = JObj [(''HOME'', JStr ''/root'')],
      files = example_files, builtin = (\<lambda>v k. None), merge = example_merge\<rparr>"

definition example_session :: session where
  "example_session = ServerConfig example_host (Some ''cfg'') None"

definition production_host :: host where
  "production_host = example_host\<lparr>NODE_ENV := Some ''production''\<rparr>"

section \<open>The operations of a session\<close>

text \<open>
  One call of a method that writes a field of the session, registers a store or logs a line;
  \<open>get\<close> and \<open>getEnvironmentName\<close> do none of these.
\<close>

inductive operation :: "session \<Rightarrow> session \<Rightarrow> bool" where
  op_info: "operation s (info msg s)"
| op_warn: "operation s (warn msg s)"
| op_error: "operation s (error msg s)"
| op_setEnvironmentName: "operation s (snd (setEnvironmentName h d s))"
| op_loadEnvironmentVariables: "operation s (snd (loadEnvironmentVariables h s))"
| op_setDebugMode: "operation s (setDebugMode b s)"
| op_getConfigFilePath: "operation s (snd (getConfigFilePath h n s))"
| op_loadConfig: "operation s (snd (loadConfig h n s))"
| op_loadConfigWithPath: "operation s (snd (loadConfigWithPath h n p s))"
| op_loadEnvironmentConfig: "operation s (snd (loadEnvironmentConfig h d s))"
| op_setDelimiter: "operation s (setDelimiter v s)"

text \<open>
  The same calls, but none that registers a store under a name that is an array index.
\<close>

inductive plain_operation :: "session \<Rightarrow> session \<Rightarrow> bool" where
  plain_info: "plain_operation s (info msg s)"
| plain_warn: "plain_operation s (warn msg s)"
| plain_error: "plain_operation s (error msg s)"
| plain_setEnvironmentName: "plain_operation s (snd (setEnvironmentName h d s))"
| plain_loadEnvironmentVariables: "plain_operation s (snd (loadEnvironmentVariables h s))"
| plain_setDebugMode: "plain_operation s (setDebugMode b s)"
| plain_getConfigFilePath: "plain_operation s (snd (getConfigFilePath h n s))"
| plain_loadConfig: "\<not> is_index n \<Longrightarrow> plain_operation s (snd (loadConfig h n s))"
| plain_loadConfigWithPath:
    "\<not> is_index n \<Longrightarrow> plain_operation s (snd (loadConfigWithPath h n p s))"
| plain_loadEnvironmentConfig:
    "\<not> is_index (resolved_name h d) \<Longrightarrow> plain_operation s (snd (loadEnvironmentConfig h d s))"
| plain_setDelimiter: "plain_operation s (setDelimiter v s)"

text \<open>
  The stores of the command line and of the environment are the first two of the provider.
\<close>

definition front_shape :: "session \<Rightarrow> bool" where
  "front_shape s =
     (case nconf s of
        None \<Rightarrow> False
      | Some stores \<Rightarrow> take 2 (map fst stores) = [''argv'', ''env''])"

text \<open>
  What no operation changes: the directory, the logger, whether the provider is attached, and
  that the delimiter is not empty.
\<close>

definition same_frame :: "session \<Rightarrow> session \<Rightarrow> bool" where
  "same_frame s s' =
     (configDirectory s' = configDirectory s \<and> logger s' = logger s
      \<and> (nconf s' = None) = (nconf s = None)
      \<and> (delimiter s' = [] \<longrightarrow> delimiter s = []))"

section \<open>A store without a key\<close>

text \<open>
  A store without its top-level entry of a key.
\<close>

definition without_key :: "string \<Rightarrow> jsval \<Rightarrow> jsval" where
  "without_key k v = (case v of JObj kvs \<Rightarrow> JObj (filter (\<lambda>p. fst p \<noteq> k) kvs) | _ \<Rightarrow> v)"

section \<open>Properties of the key resolver\<close>

lemma includes_iff: "includes_str s d \<longleftrightarrow> (\<exists>pre post. s = pre @ d @ post)"
proof (induction s)
  case Nil
  then show ?case by auto
next
  case (Cons c cs)
  show ?case
  proof
    assume "includes_str (c # cs) d"
    then consider "prefix d (c # cs)" | "includes_str cs d" by auto
    then show "\<exists>pre post. c # cs = pre @ d @ post"
    proof cases
      case 1
      then obtain post where "c # cs = d @ post" by (auto simp: prefix_def)
      then have "c # cs = [] @ d @ post" by simp
      then show ?thesis by blast
    next
      case 2
      with Cons.IH obtain pre post where "cs = pre @ d @ post" by blast
      then have "c # cs = (c # pre) @ d @ post" by simp
      then show ?thesis by blast
    qed
  next
    assume "\<exists>pre post. c # cs = pre @ d @ post"
    then obtain pre post where eq: "c # cs = pre @ d @ post" by blast
    show "includes_str (c # cs) d"
    proof (cases pre)
      case Nil
      with eq have "prefix d (c # cs)" by (simp add: prefix_def)
      then show ?thesis by simp
    next
      case (Cons p ps)
      with eq have "cs = ps @ d @ post" by simp
      with Cons.IH have "includes_str cs d" by blast
      then show ?thesis by simp
    qed
  qed
qed

lemma join_str_Cons: "join_str sep (x # xs) = (if xs = [] then x else x @ sep @ join_str sep xs)"
  by (cases xs) simp_all

lemma split_from_not_Nil: "split_from d acc s \<noteq> []"
  by (induction d acc s rule: split_from.induct) auto

lemma join_split_from:
  "d \<noteq> [] \<Longrightarrow> join_str r (split_from d acc s) = acc @ replace_all d r s"
proof (induction d acc s rule: split_from.induct)
  case (1 d acc)
  then show ?case by simp
next
  case (2 d acc c cs)
  show ?case
  proof (cases "prefix d (c # cs)")
    case True
    with 2 show ?thesis
      by (simp add: join_str_Cons split_from_not_Nil)
  next
    case False
    with 2 show ?thesis by simp
  qed
qed

lemma replace_all_absent: "\<not> includes_str s d \<Longrightarrow> replace_all d r s = s"
  by (induction s) auto

lemma replace_all_by_itself: "r = d \<Longrightarrow> replace_all d r s = s"
proof (induction d r s rule: replace_all.induct)
  case (1 d r)
  then show ?case by simp
next
  case (2 d r c cs)
  show ?case
  proof (cases "d \<noteq> [] \<and> prefix d (c # cs)")
    case True
    then obtain post where post: "c # cs = d @ post" by (auto simp: prefix_def)
    then have dr: "drop (length d) (c # cs) = post" by simp
    from True dr have "replace_all d r (c # cs) = r @ replace_all d r post" by simp
    also from 2 True dr have "replace_all d r post = post" by simp
    finally show ?thesis using post \<open>r = d\<close> by simp
  next
    case False
    with 2 show ?thesis by auto
  qed
qed

lemma replace_all_same: "replace_all d d s = s"
  by (rule replace_all_by_itself) simp

lemma cleanKey_replace_all: "d \<noteq> [] \<Longrightarrow> cleanKey key d = replace_all d '':'' key"
  by (cases "includes_str key d")
     (simp_all add: cleanKey_def split_str_def join_split_from replace_all_absent)

text \<open>
  C9. For every raw key and delimiter, \<open>cleanKey\<close> returns the key unchanged when the key does
  not contain the delimiter, and otherwise the pieces of the key split on the delimiter,
  rejoined with a colon, which for a delimiter of the session (a non-empty string) is the key
  with each occurrence of the delimiter replaced by a colon. A key in colon notation is left
  as it is under the colon delimiter, and \<open>serverSettings.port\<close> under the dot delimiter
  becomes \<open>serverSettings:port\<close>.
\<close>

theorem cleanKey_resolves:
  "((\<exists>pre post. key = pre @ d @ post) \<longrightarrow> cleanKey key d = join_str '':'' (split_str key d))
   \<and> (\<not> (\<exists>pre post. key = pre @ d @ post) \<longrightarrow> cleanKey key d = key)
   \<and> (d \<noteq> [] \<longrightarrow> cleanKey key d = resolveKey_spec key d)
   \<and> cleanKey key '':'' = key
   \<and> cleanKey ''serverSettings.port'' ''.'' = ''serverSettings:port''
   \<and> cleanKey ''serverSettings:port'' '':'' = ''serverSettings:port''"
proof -
  have a: "(\<exists>pre post. key = pre @ d @ post) \<longrightarrow> cleanKey key d = join_str '':'' (split_str key d)"
    by (simp add: cleanKey_def includes_iff [symmetric])
  have b: "\<not> (\<exists>pre post. key = pre @ d @ post) \<longrightarrow> cleanKey key d = key"
    by (simp add: cleanKey_def includes_iff [symmetric])
  have c: "d \<noteq> [] \<longrightarrow> cleanKey key d = resolveKey_spec key d"
    by (simp add: cleanKey_replace_all resolveKey_spec_def)
  have d: "\<And>k. cleanKey k '':'' = k"
    by (simp add: cleanKey_replace_all replace_all_same)
  have e: "cleanKey ''serverSettings.port'' ''.'' = ''serverSettings:port''"
    by (simp add: cleanKey_replace_all)
  from a b c d e show ?thesis by blast
qed

theorem cleanKey_resolves_witness:
  "cleanKey ''a.b.c'' ''.'' = ''a:b:c''
   \<and> cleanKey ''a.b.c'' ''/'' = ''a.b.c''
   \<and> resolveKey_spec ''a.b.c'' ''.'' = ''a:b:c''
   \<and> ''a.b.c'' = ''a'' @ ''.'' @ ''b.c''"
proof -
  have ex: "\<exists>pre post. ''a.b.c'' = pre @ ''.'' @ post"
  proof -
    have "''a.b.c'' = ''a'' @ ''.'' @ ''b.c''" by simp
    then show ?thesis by blast
  qed
  have nex: "\<not> (\<exists>pre post. ''a.b.c'' = pre @ ''/'' @ post)"
  proof -
    have "\<not> includes_str ''a.b.c'' ''/''" by simp
    with includes_iff [of "''a.b.c''" "''/''"] show ?thesis by blast
  qed
  have j: "join_str '':'' (split_str ''a.b.c'' ''.'') = ''a:b:c''"
    by (simp add: split_str_def)
  have ne: "''.'' \<noteq> ([] :: string)" by simp
  from cleanKey_resolves [of "''a.b.c''" "''.''"] ex j ne
  have 1: "cleanKey ''a.b.c'' ''.'' = ''a:b:c'' \<and> resolveKey_spec ''a.b.c'' ''.'' = ''a:b:c''"
    by metis
  from cleanKey_resolves [of "''a.b.c''" "''/''"] nex
  have 2: "cleanKey ''a.b.c'' ''/'' = ''a.b.c''" by blast
  from 1 2 show ?thesis by simp
qed

section \<open>The lookup order of the stores\<close>

lemma map_of_put_index: "map_of (put_index n v kvs) = (map_of kvs)(n \<mapsto> v)"
proof (induction kvs)
  case Nil
  then show ?case by simp
next
  case (Cons p kvs)
  obtain m w where p: "p = (m, w)" by (cases p)
  show ?case
  proof (cases "is_index m \<and> index_value m < index_value n")
    case True
    then have "m \<noteq> n" by auto
    with True Cons p show ?thesis by (auto simp: fun_upd_twist)
  next
    case False
    with p show ?thesis by auto
  qed
qed

lemma map_of_obj_set: "map_of (obj_set n v kvs) = (map_of kvs)(n \<mapsto> v)"
  by (simp add: obj_set_def map_of_put_index update_conv')

lemma split_at_name:
  "map_of xs n = Some v \<Longrightarrow> \<exists>rest. xs = precedes n xs @ (n, v) # rest"
proof (induction xs)
  case Nil
  then show ?case by simp
next
  case (Cons p xs)
  then show ?case by (cases p) (auto simp: precedes_def split: if_splits)
qed

lemma split_from_absent: "c \<notin> set s \<Longrightarrow> split_from [c] acc s = [acc @ s]"
  by (induction s arbitrary: acc) auto

lemma common_path_plain: "CHR '':'' \<notin> set key \<Longrightarrow> common_path key = [key]"
  by (simp add: common_path_def split_str_def split_from_absent)

lemma cleanKey_absent: "\<not> includes_str key d \<Longrightarrow> cleanKey key d = key"
  by (simp add: cleanKey_def)

lemma get_plain:
  assumes "nconf s = Some stores" "\<not> includes_str k (delimiter s)"
  shows "get h [k] s = Inr (provider_get h stores k)"
  using assms by (simp add: get_def cleanKey_absent)

lemmas example_defs =
  example_session_def example_host_def production_host_def example_files_def
  all_json_def local_json_def staging_json_def odd_json_def ServerConfig_def
  loadConfig_def loadEnvironmentConfig_def setEnvironmentName_def getConfigFilePath_def
  getConfigFileName_def path_join_def normalize_def existsSync_def info_def error_def
  nconf_file_def nconf_env_def nconf_argv_def nconf_overrides_def obj_set_def
  is_index_def is_digit_def get_def getEnvironmentName_def get_prop_def cleanKey_def
  provider_get_def is_object_def example_merge_def
  common_path_def split_str_def own_def precedes_def Let_def

lemma loadConfig_present:
  assumes "nconf s = Some stores" "configDirectory s = Some dir"
    and "files h (path_join dir (getConfigFileName configName)) = Some (File (Some f))"
  shows "loadConfig h configName s =
           (Inr (), (info (''Loading config file: '' @ getConfigFileName configName) s)
                      \<lparr>nconf := Some (nconf_env h (nconf_argv h (obj_set configName f stores)))\<rparr>)"
  using assms
  by (simp add: loadConfig_def getConfigFilePath_def existsSync_def nconf_file_def info_def
      Let_def)

lemma map_of_reload:
  "n \<noteq> ''argv'' \<Longrightarrow> n \<noteq> ''env'' \<Longrightarrow>
   map_of (nconf_env h (nconf_argv h stores)) n = map_of stores n"
  by (simp add: nconf_env_def nconf_argv_def map_of_obj_set)

lemma reload_keeps_front:
  "nconf_env h (nconf_argv h ((''argv'', a) # (''env'', e) # rest))
     = (''argv'', argvStore h) # (''env'', envStore h) # rest"
  by (simp add: nconf_env_def nconf_argv_def obj_set_def is_index_def is_digit_def)

lemma obj_set_behind_front:
  "\<not> is_index n \<Longrightarrow> n \<noteq> ''argv'' \<Longrightarrow> n \<noteq> ''env'' \<Longrightarrow>
   obj_set n v ((''argv'', a) # (''env'', e) # rest)
     = (''argv'', a) # (''env'', e) # AList.update n v rest"
  by (simp add: obj_set_def)

lemma nconf_overrides_name:
  "nconf_overrides [(''environmentName'', JStr name)] stores
     = obj_set ''overrides'' (override_store name) stores"
  by (simp add: nconf_overrides_def override_store_def)

lemma after_resolving_fields:
  "nconf (after_resolving p h d s) = nconf s"
  "configDirectory (after_resolving p h d s) = configDirectory s"
  "delimiter (after_resolving p h d s) = delimiter s"
  by (simp_all add: after_resolving_def info_def)

lemma loadEnvironmentConfig_unfold:
  "loadEnvironmentConfig h d s =
     (case getConfigFilePath h (resolved_name h d) (after_resolving ''Running as: '' h d s) of
        (Inl e, s2) \<Rightarrow> (Inl e, s2)
      | (Inr configFilePath, s2) \<Rightarrow>
          (case nconf s2 of
             None \<Rightarrow> (Inl TypeError, s2)
           | Some stores \<Rightarrow>
               (case (if configFilePath \<noteq> None
                      then nconf_file h (resolved_name h d) configFilePath stores
                      else (None, stores)) of
                  (Some e, stores1) \<Rightarrow> (Inl e, s2\<lparr>nconf := Some stores1\<rparr>)
                | (None, stores1) \<Rightarrow>
                    (Inr (),
                     s2\<lparr>nconf := Some (nconf_env h (nconf_argv h
                            (nconf_overrides [(''environmentName'', JStr (resolved_name h d))]
                               stores1)))\<rparr>))))"
proof (cases "NODE_ENV h")
  case None
  show ?thesis
  proof (cases "length (argv h) > 2")
    case True
    with None have n: "resolved_name h d = last (argv h)" by (simp add: resolved_name_def)
    show ?thesis unfolding n after_resolving_def
      using None True by (simp add: loadEnvironmentConfig_def n)
  next
    case False
    with None have n: "resolved_name h d = d" by (simp add: resolved_name_def)
    show ?thesis unfolding n after_resolving_def
      using None False by (simp add: loadEnvironmentConfig_def n)
  qed
next
  case (Some e)
  show ?thesis
  proof (cases "e = []")
    case False
    with Some have n: "resolved_name h d = e" by (simp add: resolved_name_def)
    show ?thesis unfolding n after_resolving_def
      using Some False by (simp add: loadEnvironmentConfig_def n)
  next
    case True
    show ?thesis
    proof (cases "length (argv h) > 2")
      case long: True
      with Some True have n: "resolved_name h d = last (argv h)" by (simp add: resolved_name_def)
      show ?thesis unfolding n after_resolving_def
        using Some True long by (simp add: loadEnvironmentConfig_def n)
    next
      case short: False
      with Some True have n: "resolved_name h d = d" by (simp add: resolved_name_def)
      show ?thesis unfolding n after_resolving_def
        using Some True short by (simp add: loadEnvironmentConfig_def n)
    qed
  qed
qed

lemma setEnvironmentName_unfold:
  "setEnvironmentName h d s =
     (case nconf (after_resolving ''Setting environment name to: '' h d s) of
        None \<Rightarrow> (Inl TypeError, after_resolving ''Setting environment name to: '' h d s)
      | Some stores \<Rightarrow>
          (Inr (),
           (after_resolving ''Setting environment name to: '' h d s)
             \<lparr>nconf := Some (nconf_overrides [(''environmentName'', JStr (resolved_name h d))]
                              stores)\<rparr>))"
proof (cases "NODE_ENV h")
  case None
  show ?thesis
  proof (cases "length (argv h) > 2")
    case True
    with None have n: "resolved_name h d = last (argv h)" by (simp add: resolved_name_def)
    show ?thesis unfolding n after_resolving_def
      using None True by (simp add: setEnvironmentName_def n split: option.splits)
  next
    case False
    with None have n: "resolved_name h d = d" by (simp add: resolved_name_def)
    show ?thesis unfolding n after_resolving_def
      using None False by (simp add: setEnvironmentName_def n split: option.splits)
  qed
next
  case (Some e)
  show ?thesis
  proof (cases "e = []")
    case False
    with Some have n: "resolved_name h d = e" by (simp add: resolved_name_def)
    show ?thesis unfolding n after_resolving_def
      using Some False by (simp add: setEnvironmentName_def n split: option.splits)
  next
    case True
    show ?thesis
    proof (cases "length (argv h) > 2")
      case long: True
      with Some True have n: "resolved_name h d = last (argv h)" by (simp add: resolved_name_def)
      show ?thesis unfolding n after_resolving_def
        using Some True long by (simp add: setEnvironmentName_def n split: option.splits)
    next
      case short: False
      with Some True have n: "resolved_name h d = d" by (simp add: resolved_name_def)
      show ?thesis unfolding n after_resolving_def
        using Some True short by (simp add: setEnvironmentName_def n split: option.splits)
    qed
  qed
qed

lemma getConfigFilePath_absent:
  assumes "configDirectory s = Some dir" "files h (path_join dir (getConfigFileName n)) = None"
  shows "getConfigFilePath h n s =
           (Inr None, error (''Failed to load config file for configuration: '' @ n) s)"
  using assms by (simp add: getConfigFilePath_def existsSync_def Let_def)

lemma getConfigFilePath_present:
  assumes "configDirectory s = Some dir" "files h (path_join dir (getConfigFileName n)) = Some node"
  shows "getConfigFilePath h n s =
           (Inr (Some (path_join dir (getConfigFileName n))),
            info (''Loading config file: '' @ getConfigFileName n) s)"
  using assms by (simp add: getConfigFilePath_def existsSync_def Let_def)

lemma loadEnvironmentConfig_ok:
  assumes ready: "nconf s = Some stores" "configDirectory s = Some dir"
    and ok: "parses h (path_join dir (getConfigFileName (resolved_name h d)))"
  shows "\<exists>s' stores1.
           loadEnvironmentConfig h d s = (Inr (), s')
           \<and> delimiter s' = delimiter s \<and> configDirectory s' = configDirectory s
           \<and> nconf s' = Some (nconf_env h (nconf_argv h
                 (obj_set ''overrides'' (override_store (resolved_name h d)) stores1)))
           \<and> (stores1 = stores \<or> (\<exists>f. stores1 = obj_set (resolved_name h d) f stores))"
proof -
  let ?n = "resolved_name h d"
  let ?s1 = "after_resolving ''Running as: '' h d s"
  let ?p = "path_join dir (getConfigFileName ?n)"
  have f1: "nconf ?s1 = Some stores" "configDirectory ?s1 = Some dir" "delimiter ?s1 = delimiter s"
    using ready by (simp_all add: after_resolving_fields)
  show ?thesis
  proof (cases "files h ?p")
    case None
    let ?s2 = "error (''Failed to load config file for configuration: '' @ ?n) ?s1"
    let ?s' = "?s2\<lparr>nconf := Some (nconf_env h (nconf_argv h
                  (obj_set ''overrides'' (override_store ?n) stores)))\<rparr>"
    have "loadEnvironmentConfig h d s = (Inr (), ?s')"
      using f1 by (simp add: loadEnvironmentConfig_unfold getConfigFilePath_absent [OF f1(2) None]
          error_def nconf_overrides_name)
    moreover have "delimiter ?s' = delimiter s" "configDirectory ?s' = configDirectory s"
      using f1 ready by (simp_all add: error_def)
    moreover have "nconf ?s' = Some (nconf_env h (nconf_argv h
                  (obj_set ''overrides'' (override_store ?n) stores)))" by simp
    ultimately show ?thesis by blast
  next
    case (Some node)
    with ok obtain f where node: "node = File (Some f)"
      by (cases node) (auto simp: parses_def)
    let ?s2 = "info (''Loading config file: '' @ getConfigFileName ?n) ?s1"
    let ?s' = "?s2\<lparr>nconf := Some (nconf_env h (nconf_argv h
                  (obj_set ''overrides'' (override_store ?n) (obj_set ?n f stores))))\<rparr>"
    have "loadEnvironmentConfig h d s = (Inr (), ?s')"
      using f1 Some node
      by (simp add: loadEnvironmentConfig_unfold getConfigFilePath_present [OF f1(2) Some]
          info_def nconf_overrides_name nconf_file_def)
    moreover have "delimiter ?s' = delimiter s" "configDirectory ?s' = configDirectory s"
      using f1 ready by (simp_all add: info_def)
    moreover have "nconf ?s' = Some (nconf_env h (nconf_argv h
                  (obj_set ''overrides'' (override_store ?n) (obj_set ?n f stores))))" by simp
    ultimately show ?thesis by blast
  qed
qed

lemma setEnvironmentName_ok:
  assumes "nconf s = Some stores"
  shows "\<exists>s'. setEnvironmentName h d s = (Inr (), s')
           \<and> delimiter s' = delimiter s \<and> configDirectory s' = configDirectory s
           \<and> nconf s' = Some (obj_set ''overrides'' (override_store (resolved_name h d)) stores)"
  using assms
  by (simp add: setEnvironmentName_unfold after_resolving_fields nconf_overrides_name)

lemma map_of_after_override:
  "map_of (nconf_env h (nconf_argv h (obj_set ''overrides'' ov stores1))) ''overrides'' = Some ov"
  by (simp add: map_of_reload map_of_obj_set)

lemma override_store_value:
  "memory_get (override_store name) (common_path ''environmentName'') = JStr name"
  by (simp add: override_store_def common_path_def split_str_def own_def)











lemma execute_get_answers:
  "execute_get stores key objs =
     ((case dropWhile is_object (answers stores key) of [] \<Rightarrow> JUndefined | r # rs \<Rightarrow> r),
      objs @ takeWhile is_object (answers stores key))"
proof (induction stores arbitrary: objs)
  case Nil
  then show ?case by (simp add: answers_def)
next
  case (Cons p stores)
  obtain name store where p: "p = (name, store)" by (cases p)
  let ?r = "memory_get store (common_path key)"
  have tail: "answers (p # stores) key = (if ?r = JUndefined then [] else [?r]) @ answers stores key"
    by (simp add: answers_def p)
  show ?case
  proof (cases "?r = JUndefined")
    case True
    with Cons tail p show ?thesis by simp
  next
    case False
    show ?thesis
    proof (cases "is_object ?r")
      case True
      with False Cons tail p show ?thesis by simp
    next
      case no: False
      with False tail p show ?thesis by simp
    qed
  qed
qed

lemma provider_get_answers:
  "provider_get h stores key =
     (case answers stores key of
        [] \<Rightarrow> JUndefined
      | r # rs \<Rightarrow> if is_object r then merge h (rev (takeWhile is_object (r # rs))) else r)"
  by (cases "answers stores key") (simp_all add: provider_get_def execute_get_answers)

lemma provider_get_none: "answers stores key = [] \<Longrightarrow> provider_get h stores key = JUndefined"
  by (simp add: provider_get_answers)

lemma provider_get_stands:
  "answers stores key \<noteq> [] \<Longrightarrow> \<not> is_object (hd (answers stores key))
     \<Longrightarrow> provider_get h stores key = hd (answers stores key)"
  by (cases "answers stores key") (simp_all add: provider_get_answers)

lemma provider_get_merges:
  "answers stores key \<noteq> [] \<Longrightarrow> is_object (hd (answers stores key))
     \<Longrightarrow> provider_get h stores key = merge h (rev (takeWhile is_object (answers stores key)))"
  by (cases "answers stores key") (simp_all add: provider_get_answers)

lemma answers_append: "answers (xs @ ys) key = answers xs key @ answers ys key"
  by (simp add: answers_def)

lemma answers_at_name:
  assumes "map_of stores n = Some st" and "memory_get st (common_path key) = v" and "v \<noteq> JUndefined"
  shows "\<exists>rest. answers stores key = answers (precedes n stores) key @ v # rest"
proof -
  from split_at_name [OF assms(1)] obtain rest
    where eq: "stores = precedes n stores @ (n, st) # rest" by blast
  have "answers (precedes n stores @ (n, st) # rest) key
      = answers (precedes n stores) key @ v # answers rest key"
    using assms(2,3) by (simp add: answers_def)
  with eq show ?thesis by metis
qed

lemma first_of:
  assumes "nconf s = Some stores" "map_of stores n = Some st"
    and "\<not> includes_str k (delimiter s)" "memory_get st (common_path k) = v" "v \<noteq> JUndefined"
  shows "answers (precedes n stores) k = [] \<and> \<not> is_object v \<longrightarrow> get h [k] s = Inr v"
    and "answers (precedes n stores) k \<noteq> [] \<and> \<not> is_object (hd (answers (precedes n stores) k))
           \<longrightarrow> get h [k] s = Inr (hd (answers (precedes n stores) k))"
    and "is_object (hd (answers stores k))
           \<longrightarrow> get h [k] s = Inr (merge h (rev (takeWhile is_object (answers stores k))))"
    and "answers stores k \<noteq> []"
    and "hd (answers stores k)
           = (if answers (precedes n stores) k = [] then v else hd (answers (precedes n stores) k))"
    and "\<not> is_object v \<longrightarrow> takeWhile is_object (answers stores k)
           = takeWhile is_object (answers (precedes n stores) k)"
proof -
  from answers_at_name [OF assms(2) assms(4) assms(5)] obtain rest
    where eq: "answers stores k = answers (precedes n stores) k @ v # rest" by blast
  have g: "get h [k] s = Inr (provider_get h stores k)"
    using assms(1,3) by (rule get_plain)
  show ne: "answers stores k \<noteq> []" using eq by simp
  show hd: "hd (answers stores k)
           = (if answers (precedes n stores) k = [] then v else hd (answers (precedes n stores) k))"
    using eq by (cases "answers (precedes n stores) k") simp_all
  show "answers (precedes n stores) k = [] \<and> \<not> is_object v \<longrightarrow> get h [k] s = Inr v"
    using g ne hd by (auto simp: provider_get_stands)
  show "answers (precedes n stores) k \<noteq> [] \<and> \<not> is_object (hd (answers (precedes n stores) k))
           \<longrightarrow> get h [k] s = Inr (hd (answers (precedes n stores) k))"
    using g ne hd by (auto simp: provider_get_stands)
  show "is_object (hd (answers stores k))
           \<longrightarrow> get h [k] s = Inr (merge h (rev (takeWhile is_object (answers stores k))))"
    using g ne by (auto simp: provider_get_merges)
  show "\<not> is_object v \<longrightarrow> takeWhile is_object (answers stores k)
           = takeWhile is_object (answers (precedes n stores) k)"
  proof
    assume no: "\<not> is_object v"
    show "takeWhile is_object (answers stores k)
           = takeWhile is_object (answers (precedes n stores) k)"
    proof (cases "\<forall>x\<in>set (answers (precedes n stores) k). is_object x")
      case True
      then have t: "takeWhile is_object (answers (precedes n stores) k)
          = answers (precedes n stores) k"
        by (simp add: takeWhile_eq_all_conv)
      from True have "takeWhile is_object (answers (precedes n stores) k @ v # rest)
          = answers (precedes n stores) k @ takeWhile is_object (v # rest)"
        by (simp add: takeWhile_append2)
      also from no have "\<dots> = answers (precedes n stores) k" by simp
      finally show ?thesis unfolding eq by (simp only: t)
    next
      case False
      then show ?thesis unfolding eq by (auto simp: takeWhile_append1)
    qed
  qed
qed

section \<open>What the operations preserve\<close>

lemma same_frame_refl: "same_frame s s"
  by (simp add: same_frame_def)

lemma same_frame_trans: "same_frame s t \<Longrightarrow> same_frame t u \<Longrightarrow> same_frame s u"
  by (auto simp: same_frame_def)

lemma same_frame_log:
  "same_frame s (info msg s)" "same_frame s (warn msg s)" "same_frame s (error msg s)"
  by (simp_all add: same_frame_def info_def warn_def error_def)

lemma same_frame_nconf: "nconf s \<noteq> None \<Longrightarrow> same_frame s (s\<lparr>nconf := Some x\<rparr>)"
  by (simp add: same_frame_def)

lemma frame_getConfigFilePath: "same_frame s (snd (getConfigFilePath h n s))"
  by (simp add: getConfigFilePath_def Let_def same_frame_log same_frame_refl
      split: option.splits)

lemma frame_after_file:
  assumes "same_frame s s1"
  shows "same_frame s
           (snd (case nconf s1 of
                   None \<Rightarrow> (Inl TypeError, s1)
                 | Some stores \<Rightarrow>
                     (case nconf_file h n p stores of
                        (Some e, stores1) \<Rightarrow> (Inl e, s1\<lparr>nconf := Some stores1\<rparr>)
                      | (None, stores1) \<Rightarrow> (Inr (), s1\<lparr>nconf := Some (g stores1)\<rparr>))))"
proof (cases "nconf s1")
  case None
  with assms show ?thesis by simp
next
  case (Some stores)
  obtain r stores1 where f: "nconf_file h n p stores = (r, stores1)" by (cases "nconf_file h n p stores")
  from Some have "same_frame s1 (s1\<lparr>nconf := Some x\<rparr>)" for x by (simp add: same_frame_nconf)
  with assms have "same_frame s (s1\<lparr>nconf := Some x\<rparr>)" for x by (blast intro: same_frame_trans)
  with Some f show ?thesis by (cases r) simp_all
qed

lemma frame_loadConfig: "same_frame s (snd (loadConfig h n s))"
proof -
  obtain r s1 where g: "getConfigFilePath h n s = (r, s1)" by (cases "getConfigFilePath h n s")
  with frame_getConfigFilePath [of s h n] have f1: "same_frame s s1" by simp
  show ?thesis
  proof (cases r)
    case (Inl e)
    with g f1 show ?thesis by (simp add: loadConfig_def)
  next
    case (Inr p)
    with g frame_after_file [OF f1, where h = h and n = n and p = p
        and g = "\<lambda>st. nconf_env h (nconf_argv h st)"]
    show ?thesis by (simp add: loadConfig_def)
  qed
qed

lemma frame_loadConfigWithPath: "same_frame s (snd (loadConfigWithPath h n p s))"
proof (cases "existsSync h p")
  case True
  with frame_after_file [OF same_frame_log(1), where h = h and n = n and p = "Some p"
        and g = "\<lambda>st. nconf_env h (nconf_argv h st)"]
  show ?thesis by (simp add: loadConfigWithPath_def Let_def)
next
  case False
  then show ?thesis by (simp add: loadConfigWithPath_def same_frame_log)
qed

lemma frame_after_resolving: "same_frame s (after_resolving l h d s)"
  by (simp add: after_resolving_def same_frame_log same_frame_refl)

lemma frame_setEnvironmentName: "same_frame s (snd (setEnvironmentName h d s))"
proof -
  let ?s1 = "after_resolving ''Setting environment name to: '' h d s"
  have f1: "same_frame s ?s1" by (rule frame_after_resolving)
  show ?thesis
  proof (cases "nconf ?s1")
    case None
    with f1 show ?thesis by (simp add: setEnvironmentName_unfold)
  next
    case (Some stores)
    then have "same_frame ?s1 (?s1\<lparr>nconf := Some x\<rparr>)" for x by (simp add: same_frame_nconf)
    with f1 have "same_frame s (?s1\<lparr>nconf := Some x\<rparr>)" for x by (blast intro: same_frame_trans)
    with Some show ?thesis by (simp add: setEnvironmentName_unfold)
  qed
qed

lemma frame_loadEnvironmentVariables: "same_frame s (snd (loadEnvironmentVariables h s))"
  by (cases "nconf s") (simp_all add: loadEnvironmentVariables_def same_frame_def)

lemma frame_loadEnvironmentConfig: "same_frame s (snd (loadEnvironmentConfig h d s))"
proof -
  let ?s1 = "after_resolving ''Running as: '' h d s"
  let ?n = "resolved_name h d"
  obtain r s2 where g: "getConfigFilePath h ?n ?s1 = (r, s2)" by (cases "getConfigFilePath h ?n ?s1")
  with frame_getConfigFilePath [of ?s1 h ?n] have "same_frame ?s1 s2" by simp
  with frame_after_resolving [of s "''Running as: ''" h d] have f2: "same_frame s s2"
    by (blast intro: same_frame_trans)
  show ?thesis
  proof (cases r)
    case (Inl e)
    with g f2 show ?thesis by (simp add: loadEnvironmentConfig_unfold)
  next
    case (Inr p)
    show ?thesis
    proof (cases "nconf s2")
      case None
      with g Inr f2 show ?thesis by (simp add: loadEnvironmentConfig_unfold)
    next
      case (Some stores)
      then have "same_frame s2 (s2\<lparr>nconf := Some x\<rparr>)" for x by (simp add: same_frame_nconf)
      with f2 have f3: "same_frame s (s2\<lparr>nconf := Some x\<rparr>)" for x
        by (blast intro: same_frame_trans)
      obtain e stores1 where c: "(if p \<noteq> None then nconf_file h ?n p stores else (None, stores))
           = (e, stores1)"
        by (cases "if p \<noteq> None then nconf_file h ?n p stores else (None, stores)")
      have "loadEnvironmentConfig h d s =
              (case e of
                 Some x \<Rightarrow> (Inl x, s2\<lparr>nconf := Some stores1\<rparr>)
               | None \<Rightarrow> (Inr (), s2\<lparr>nconf := Some (nconf_env h (nconf_argv h
                     (nconf_overrides [(''environmentName'', JStr ?n)] stores1)))\<rparr>))"
        unfolding loadEnvironmentConfig_unfold g using Inr Some c
        by (simp split: option.splits)
      with f3 show ?thesis by (cases e) simp_all
    qed
  qed
qed

lemma frame_setDelimiter: "same_frame s (setDelimiter v s)"
  by (cases v)
     (auto simp: setDelimiter_def isUndefined_def isNull_def isEmpty_def isString_def
       error_def same_frame_def)

lemma operation_frame: "operation s s' \<Longrightarrow> same_frame s s'"
  by (induction rule: operation.induct)
     (simp_all add: same_frame_log frame_setEnvironmentName frame_loadEnvironmentVariables
       frame_getConfigFilePath frame_loadConfig frame_loadConfigWithPath
       frame_loadEnvironmentConfig frame_setDelimiter,
      simp add: setDebugMode_def same_frame_def)

lemma operations_frame: "operation\<^sup>*\<^sup>* s s' \<Longrightarrow> same_frame s s'"
  by (induction rule: rtranclp_induct)
     (auto intro: same_frame_refl same_frame_trans operation_frame)

lemma ServerConfig_delimiter: "delimiter (ServerConfig h dir lg) = ''.''"
  by (simp add: ServerConfig_def error_def Let_def split: option.splits)

lemma ServerConfig_directory: "configDirectory (ServerConfig h dir lg) = dir"
  by (simp add: ServerConfig_def error_def Let_def split: option.splits)

lemma ServerConfig_invalid:
  assumes "dir = None \<or> dir = Some [] \<or> (\<exists>p. dir = Some p \<and> files h p = None)"
  shows "ServerConfig h dir lg =
           \<lparr>configDirectory = dir, delimiter = ''.'', debug = False, nconf = None,
            logger = None, logged = [(None, LError, ''Config directory is invalid.'')]\<rparr>"
  using assms
  by (auto simp: ServerConfig_def error_def existsSync_def Let_def split: option.splits)

lemma setDelimiter_rejects:
  assumes "d = JUndefined \<or> d = JNull \<or> d = JStr [] \<or> \<not> isString d"
  shows "setDelimiter d s = error ''Invalid delimiter specified.'' s"
  using assms
  by (cases d) (auto simp: setDelimiter_def isUndefined_def isNull_def isEmpty_def isString_def)

lemma setDelimiter_accepts: "x \<noteq> [] \<Longrightarrow> setDelimiter (JStr x) s = s\<lparr>delimiter := x\<rparr>"
  by (simp add: setDelimiter_def isUndefined_def isNull_def isEmpty_def isString_def)

text \<open>
  C6. The delimiter of a session is never the empty string: it is the dot after construction,
  and no sequence of operations empties it. \<open>setDelimiter\<close> of \<^verbatim>\<open>undefined\<close>, \<^verbatim>\<open>null\<close>, the empty
  string or any value that is not a string logs an error and changes nothing else, the
  delimiter included; \<open>setDelimiter\<close> of a non-empty string makes that string the delimiter.
\<close>

theorem delimiter_invariant:
  "delimiter (ServerConfig h dir lg) = ''.''
   \<and> (operation\<^sup>*\<^sup>* (ServerConfig h dir lg) s \<longrightarrow> delimiter s \<noteq> [])
   \<and> (d = JUndefined \<or> d = JNull \<or> d = JStr [] \<or> \<not> isString d
        \<longrightarrow> setDelimiter d s0 = error ''Invalid delimiter specified.'' s0
            \<and> delimiter (setDelimiter d s0) = delimiter s0)
   \<and> (x \<noteq> [] \<longrightarrow> setDelimiter (JStr x) s0 = s0\<lparr>delimiter := x\<rparr>)"
proof -
  have a: "operation\<^sup>*\<^sup>* (ServerConfig h dir lg) s \<longrightarrow> delimiter s \<noteq> []"
  proof
    assume "operation\<^sup>*\<^sup>* (ServerConfig h dir lg) s"
    then have "same_frame (ServerConfig h dir lg) s" by (rule operations_frame)
    then show "delimiter s \<noteq> []"
      by (auto simp: same_frame_def ServerConfig_delimiter)
  qed
  have b: "d = JUndefined \<or> d = JNull \<or> d = JStr [] \<or> \<not> isString d
        \<longrightarrow> setDelimiter d s0 = error ''Invalid delimiter specified.'' s0
            \<and> delimiter (setDelimiter d s0) = delimiter s0"
    by (auto simp: setDelimiter_rejects error_def)
  have c: "x \<noteq> [] \<longrightarrow> setDelimiter (JStr x) s0 = s0\<lparr>delimiter := x\<rparr>"
    by (simp add: setDelimiter_accepts)
  from ServerConfig_delimiter [of h dir lg] a b c show ?thesis by blast
qed

theorem delimiter_invariant_witness:
  "operation\<^sup>*\<^sup>* example_session (setDelimiter (JStr ''/'') example_session)
   \<and> delimiter example_session = ''.''
   \<and> delimiter (setDelimiter (JStr ''/'') example_session) = ''/''
   \<and> delimiter (setDelimiter (JNum 5) example_session) = ''.''
   \<and> logged (setDelimiter (JNum 5) example_session)
       = [(None, LError, ''Invalid delimiter specified.'')]"
proof -
  have r: "operation\<^sup>*\<^sup>* (ServerConfig example_host (Some ''cfg'') None)
             (setDelimiter (JStr ''/'') example_session)"
    unfolding example_session_def by (rule r_into_rtranclp) (rule op_setDelimiter)
  have n: "JNum 5 = JUndefined \<or> JNum 5 = JNull \<or> JNum 5 = JStr [] \<or> \<not> isString (JNum 5)"
    by (simp add: isString_def)
  have x: "''/'' \<noteq> ([] :: string)" by simp
  note t = delimiter_invariant [of example_host "Some ''cfg''" None
      "setDelimiter (JStr ''/'') example_session" "JNum 5" example_session "''/''"]
  from t r have 1: "delimiter (setDelimiter (JStr ''/'') example_session) \<noteq> []" by blast
  from t have 2: "delimiter example_session = ''.''" by (simp add: example_session_def)
  from t x have 3: "setDelimiter (JStr ''/'') example_session = example_session\<lparr>delimiter := ''/''\<rparr>"
    by blast
  from t n have 4: "setDelimiter (JNum 5) example_session
      = error ''Invalid delimiter specified.'' example_session"
    and 5: "delimiter (setDelimiter (JNum 5) example_session) = delimiter example_session"
    by blast+
  have 6: "logged (error ''Invalid delimiter specified.'' example_session)
      = [(None, LError, ''Invalid delimiter specified.'')]"
    by (simp add: example_defs)
  from r 2 3 4 5 6 show ?thesis by (simp add: example_session_def)
qed

lemma ServerConfig_store:
  "nconf (ServerConfig h dir lg) = None
     \<longleftrightarrow> dir = None \<or> dir = Some [] \<or> (\<exists>p. dir = Some p \<and> files h p = None)"
  by (auto simp: ServerConfig_def error_def existsSync_def Let_def split: option.splits)

lemma ServerConfig_logger:
  "logger (ServerConfig h dir lg) = (if nconf (ServerConfig h dir lg) = None then None else lg)"
  by (auto simp: ServerConfig_def error_def Let_def split: option.splits)

text \<open>
  C8, as amended. The factory is a singleton: the first call constructs the session and stores
  it, and a later call, whatever its arguments, returns the stored session and stores nothing
  new. The stored session, whatever operations it went through in between, has the directory
  of the first call and the logger that the first construction left it with: the logger of
  the first call when that construction succeeded, and no logger when it failed, which it
  does just when the first directory is undefined, empty or does not exist.
\<close>

theorem module_exports_singleton:
  "module_exports h1 dir1 lg1 None = (ServerConfig h1 dir1 lg1, Some (ServerConfig h1 dir1 lg1))
   \<and> module_exports h2 dir2 lg2 (snd (module_exports h1 dir1 lg1 None))
       = module_exports h1 dir1 lg1 None
   \<and> module_exports h2 dir2 lg2 (Some s) = (s, Some s)
   \<and> (operation\<^sup>*\<^sup>* (ServerConfig h1 dir1 lg1) s
        \<longrightarrow> configDirectory (fst (module_exports h2 dir2 lg2 (Some s))) = dir1
            \<and> logger (fst (module_exports h2 dir2 lg2 (Some s)))
                = logger (ServerConfig h1 dir1 lg1))
   \<and> (nconf (ServerConfig h1 dir1 lg1) \<noteq> None \<longrightarrow> logger (ServerConfig h1 dir1 lg1) = lg1)
   \<and> (nconf (ServerConfig h1 dir1 lg1) = None \<longrightarrow> logger (ServerConfig h1 dir1 lg1) = None)
   \<and> (nconf (ServerConfig h1 dir1 lg1) = None
        \<longleftrightarrow> dir1 = None \<or> dir1 = Some [] \<or> (\<exists>p. dir1 = Some p \<and> files h1 p = None))"
proof -
  have a: "module_exports h1 dir1 lg1 None
      = (ServerConfig h1 dir1 lg1, Some (ServerConfig h1 dir1 lg1))"
    by (simp add: module_exports_def Let_def)
  have b: "\<And>s. module_exports h2 dir2 lg2 (Some s) = (s, Some s)"
    by (simp add: module_exports_def)
  have c: "operation\<^sup>*\<^sup>* (ServerConfig h1 dir1 lg1) s
        \<longrightarrow> configDirectory (fst (module_exports h2 dir2 lg2 (Some s))) = dir1
            \<and> logger (fst (module_exports h2 dir2 lg2 (Some s)))
                = logger (ServerConfig h1 dir1 lg1)"
  proof
    assume "operation\<^sup>*\<^sup>* (ServerConfig h1 dir1 lg1) s"
    then have "same_frame (ServerConfig h1 dir1 lg1) s" by (rule operations_frame)
    then show "configDirectory (fst (module_exports h2 dir2 lg2 (Some s))) = dir1
            \<and> logger (fst (module_exports h2 dir2 lg2 (Some s)))
                = logger (ServerConfig h1 dir1 lg1)"
      by (simp add: b same_frame_def ServerConfig_directory)
  qed
  have d: "nconf (ServerConfig h1 dir1 lg1) \<noteq> None \<longrightarrow> logger (ServerConfig h1 dir1 lg1) = lg1"
    by (simp add: ServerConfig_logger)
  have e: "nconf (ServerConfig h1 dir1 lg1) = None \<longrightarrow> logger (ServerConfig h1 dir1 lg1) = None"
    by (simp add: ServerConfig_logger)
  have a2: "module_exports h2 dir2 lg2 (snd (module_exports h1 dir1 lg1 None))
       = module_exports h1 dir1 lg1 None"
    by (simp add: a b)
  note f = ServerConfig_store [of h1 dir1 lg1]
  show ?thesis by (intro conjI) (rule a a2 b c d e f)+
qed

text \<open>
  The claim C8 as stated fails when the first construction fails: the first call, over a
  directory that does not exist, attaches no logger, and the session that the second call
  returns has none, not the logger of the first call.
\<close>

theorem module_exports_singleton_counterexample:
  "files example_host ''nowhere'' = None
   \<and> logger (fst (module_exports example_host (Some ''cfg'') (Some 7)
                  (snd (module_exports example_host (Some ''nowhere'') (Some 3) None))))
       = None
   \<and> logger (fst (module_exports example_host (Some ''cfg'') (Some 7)
                  (snd (module_exports example_host (Some ''nowhere'') (Some 3) None))))
       \<noteq> Some 3"
  by (simp add: module_exports_def example_defs)

theorem module_exports_singleton_witness:
  "fst (module_exports example_host (Some ''elsewhere'') (Some 7)
          (snd (module_exports example_host (Some ''cfg'') (Some 3) None)))
     = ServerConfig example_host (Some ''cfg'') (Some 3)
   \<and> configDirectory (fst (module_exports example_host (Some ''elsewhere'') (Some 7)
          (Some (snd (loadConfig example_host ''all''
                        (ServerConfig example_host (Some ''cfg'') (Some 3)))))))
       = Some ''cfg''
   \<and> logger (fst (module_exports example_host (Some ''elsewhere'') (Some 7)
          (Some (snd (loadConfig example_host ''all''
                        (ServerConfig example_host (Some ''cfg'') (Some 3)))))))
       = Some 3
   \<and> files example_host ''nowhere'' = None
   \<and> logger (ServerConfig example_host (Some ''nowhere'') (Some 3)) = None"
proof -
  let ?first = "ServerConfig example_host (Some ''cfg'') (Some 3)"
  let ?s = "snd (loadConfig example_host ''all'' ?first)"
  have r: "operation\<^sup>*\<^sup>* ?first ?s"
    by (rule r_into_rtranclp) (rule op_loadConfig)
  have ok: "nconf ?first \<noteq> None" by (simp add: example_defs)
  note t = module_exports_singleton [of example_host "Some ''cfg''" "Some 3" example_host
      "Some ''elsewhere''" "Some 7" ?s]
  from t have a1: "module_exports example_host (Some ''cfg'') (Some 3) None = (?first, Some ?first)"
    and a2: "module_exports example_host (Some ''elsewhere'') (Some 7)
          (snd (module_exports example_host (Some ''cfg'') (Some 3) None))
        = module_exports example_host (Some ''cfg'') (Some 3) None"
    by blast+
  have "fst (module_exports example_host (Some ''elsewhere'') (Some 7)
          (snd (module_exports example_host (Some ''cfg'') (Some 3) None)))
      = fst (module_exports example_host (Some ''cfg'') (Some 3) None)"
    by (simp only: a2)
  also have "\<dots> = ?first" by (simp only: a1 fst_conv)
  finally have 1: "fst (module_exports example_host (Some ''elsewhere'') (Some 7)
          (snd (module_exports example_host (Some ''cfg'') (Some 3) None))) = ?first" .
  from t r have 2: "configDirectory (fst (module_exports example_host (Some ''elsewhere'') (Some 7)
      (Some ?s))) = Some ''cfg''"
    and 3: "logger (fst (module_exports example_host (Some ''elsewhere'') (Some 7) (Some ?s)))
      = logger ?first" by blast+
  from t ok have 4: "logger ?first = Some 3" by blast
  have absent: "files example_host ''nowhere'' = None" by (simp add: example_defs)
  note u = module_exports_singleton [of example_host "Some ''nowhere''" "Some 3" example_host
      "Some ''cfg''" "Some 7" "ServerConfig example_host (Some ''nowhere'') (Some 3)"]
  from u absent have "nconf (ServerConfig example_host (Some ''nowhere'') (Some 3)) = None"
    by blast
  with u have 5: "logger (ServerConfig example_host (Some ''nowhere'') (Some 3)) = None" by blast
  from 1 2 3 4 absent 5 show ?thesis by simp
qed

lemma no_store_throws:
  assumes "nconf s = None"
  shows "get h [] s = Inr JNull"
    and "get h (a # rest) s = Inl TypeError"
    and "getEnvironmentName h s = Inl TypeError"
    and "fst (loadConfig h n s) = Inl TypeError"
    and "fst (loadEnvironmentConfig h d s) = Inl TypeError"
    and "fst (setEnvironmentName h d s) = Inl TypeError"
    and "fst (loadEnvironmentVariables h s) = Inl TypeError"
proof -
  show "get h [] s = Inr JNull" by (simp add: get_def)
  show "get h (a # rest) s = Inl TypeError" using assms by (simp add: get_def)
  show "getEnvironmentName h s = Inl TypeError" using assms by (simp add: getEnvironmentName_def)
  show "fst (loadEnvironmentVariables h s) = Inl TypeError"
    using assms by (simp add: loadEnvironmentVariables_def)
  show "fst (setEnvironmentName h d s) = Inl TypeError"
    using assms by (simp add: setEnvironmentName_unfold after_resolving_fields)
  have after: "nconf (snd (getConfigFilePath h' n' s')) = None" if "nconf s' = None" for h' n' s'
    using that frame_getConfigFilePath [of s' h' n'] by (simp add: same_frame_def)
  show "fst (loadConfig h n s) = Inl TypeError"
  proof -
    obtain r s1 where g: "getConfigFilePath h n s = (r, s1)" by (cases "getConfigFilePath h n s")
    with after [OF assms, of h n] have n1: "nconf s1 = None" by simp
    have "r = Inl TypeError \<or> (\<exists>p. r = Inr p)"
      using g by (auto simp: getConfigFilePath_def Let_def split: option.splits if_splits)
    with g n1 show ?thesis by (auto simp: loadConfig_def)
  qed
  show "fst (loadEnvironmentConfig h d s) = Inl TypeError"
  proof -
    let ?s1 = "after_resolving ''Running as: '' h d s"
    have n0: "nconf ?s1 = None" using assms by (simp add: after_resolving_fields)
    obtain r s2 where g: "getConfigFilePath h (resolved_name h d) ?s1 = (r, s2)"
      by (cases "getConfigFilePath h (resolved_name h d) ?s1")
    with after [OF n0, of h "resolved_name h d"] have n2: "nconf s2 = None" by simp
    have "r = Inl TypeError \<or> (\<exists>p. r = Inr p)"
      using g by (auto simp: getConfigFilePath_def Let_def split: option.splits if_splits)
    with g n2 show ?thesis by (auto simp: loadEnvironmentConfig_unfold)
  qed
qed

text \<open>
  C7, as amended. When the directory given to the constructor is undefined, empty or does not
  exist, the construction throws nothing: it logs an error on the console and yields a session
  without a provider and without a logger. Whatever operations follow, the provider stays
  absent; \<open>setDelimiter\<close> and \<open>get\<close> without keys still work, while \<open>get\<close> with a key,
  \<open>getEnvironmentName\<close>, \<open>loadConfig\<close>, \<open>loadEnvironmentConfig\<close>, \<open>setEnvironmentName\<close> and
  \<open>loadEnvironmentVariables\<close> each raise a \<^verbatim>\<open>TypeError\<close>.
\<close>

theorem invalid_directory_session:
  assumes "dir = None \<or> dir = Some [] \<or> (\<exists>p. dir = Some p \<and> files h p = None)"
  shows "ServerConfig h dir lg =
           \<lparr>configDirectory = dir, delimiter = ''.'', debug = False, nconf = None,
            logger = None, logged = [(None, LError, ''Config directory is invalid.'')]\<rparr>
         \<and> (\<forall>s. operation\<^sup>*\<^sup>* (ServerConfig h dir lg) s \<longrightarrow>
               nconf s = None
               \<and> get h2 [] s = Inr JNull
               \<and> get h2 (a # rest) s = Inl TypeError
               \<and> getEnvironmentName h2 s = Inl TypeError
               \<and> fst (loadConfig h2 n s) = Inl TypeError
               \<and> fst (loadEnvironmentConfig h2 d s) = Inl TypeError
               \<and> fst (setEnvironmentName h2 d s) = Inl TypeError
               \<and> fst (loadEnvironmentVariables h2 s) = Inl TypeError
               \<and> (x \<noteq> [] \<longrightarrow> delimiter (setDelimiter (JStr x) s) = x))"
proof (intro conjI allI impI)
  show "ServerConfig h dir lg =
           \<lparr>configDirectory = dir, delimiter = ''.'', debug = False, nconf = None,
            logger = None, logged = [(None, LError, ''Config directory is invalid.'')]\<rparr>"
    by (rule ServerConfig_invalid [OF assms])
next
  fix s
  assume r: "operation\<^sup>*\<^sup>* (ServerConfig h dir lg) s"
  have "nconf (ServerConfig h dir lg) = None" by (simp add: ServerConfig_invalid [OF assms])
  with operations_frame [OF r] show none: "nconf s = None" by (simp add: same_frame_def)
  note t = no_store_throws [OF none]
  show "get h2 [] s = Inr JNull" by (rule t)
  show "get h2 (a # rest) s = Inl TypeError" by (rule t)
  show "getEnvironmentName h2 s = Inl TypeError" by (rule t)
  show "fst (loadConfig h2 n s) = Inl TypeError" by (rule t)
  show "fst (loadEnvironmentConfig h2 d s) = Inl TypeError" by (rule t)
  show "fst (setEnvironmentName h2 d s) = Inl TypeError" by (rule t)
  show "fst (loadEnvironmentVariables h2 s) = Inl TypeError" by (rule t)
  show "delimiter (setDelimiter (JStr x) s) = x" if "x \<noteq> []"
    using that by (simp add: setDelimiter_accepts)
qed

text \<open>
  The claim C7 as stated fails: on a session constructed over a directory that does not exist,
  or over no directory, \<open>get\<close> of a key raises a \<^verbatim>\<open>TypeError\<close>.
\<close>

theorem invalid_directory_session_counterexample:
  "files example_host ''nowhere'' = None
   \<and> logged (ServerConfig example_host (Some ''nowhere'') (Some 3))
       = [(None, LError, ''Config directory is invalid.'')]
   \<and> get example_host [''name''] (ServerConfig example_host (Some ''nowhere'') (Some 3))
       = Inl TypeError
   \<and> get example_host [''name''] (ServerConfig example_host None None) = Inl TypeError"
  by (simp add: example_defs)

theorem invalid_directory_session_witness:
  "files example_host ''nowhere'' = None
   \<and> nconf (ServerConfig example_host (Some ''nowhere'') (Some 3)) = None
   \<and> get example_host [] (ServerConfig example_host (Some ''nowhere'') (Some 3)) = Inr JNull
   \<and> getEnvironmentName example_host
         (setDelimiter (JStr ''/'') (ServerConfig example_host (Some ''nowhere'') (Some 3)))
       = Inl TypeError
   \<and> fst (loadConfig example_host ''all'' (ServerConfig example_host (Some ''nowhere'') (Some 3)))
       = Inl TypeError
   \<and> delimiter (setDelimiter (JStr ''/'') (ServerConfig example_host (Some ''nowhere'') (Some 3)))
       = ''/''"
proof -
  let ?s = "ServerConfig example_host (Some ''nowhere'') (Some 3)"
  have absent: "files example_host ''nowhere'' = None" by (simp add: example_defs)
  then have inv: "Some ''nowhere'' = None \<or> Some ''nowhere'' = Some []
      \<or> (\<exists>p. Some ''nowhere'' = Some p \<and> files example_host p = None)" by simp
  note t = invalid_directory_session [OF inv, of "Some 3" example_host "''name''" "[]" "''all''"
      "''local''" "''/''"]
  have r0: "operation\<^sup>*\<^sup>* ?s ?s" by simp
  have r1: "operation\<^sup>*\<^sup>* ?s (setDelimiter (JStr ''/'') ?s)"
    by (rule r_into_rtranclp) (rule op_setDelimiter)
  have x: "''/'' \<noteq> ([] :: string)" by simp
  from t r0 have 1: "nconf ?s = None" and 2: "get example_host [] ?s = Inr JNull"
    and 3: "fst (loadConfig example_host ''all'' ?s) = Inl TypeError" by blast+
  from t r1 have 4: "getEnvironmentName example_host (setDelimiter (JStr ''/'') ?s) = Inl TypeError"
    by blast
  from t r0 x have 5: "delimiter (setDelimiter (JStr ''/'') ?s) = ''/''" by blast
  from absent 1 2 3 4 5 show ?thesis by blast
qed

section \<open>The precedence of the sources\<close>

text \<open>
  The constructor registers the stores of the command line and of the environment first, and
  no operation that keeps clear of array-index names puts a store before them.
\<close>

lemma front_cases:
  "take 2 (map fst stores) = [''argv'', ''env'']
     \<longleftrightarrow> (\<exists>a e rest. stores = (''argv'', a) # (''env'', e) # rest)"
proof (cases stores)
  case Nil
  then show ?thesis by simp
next
  case (Cons x xs)
  then show ?thesis by (cases xs; cases x) (auto simp: numeral_2_eq_2)
qed

lemma front_obj_set:
  assumes "\<not> is_index n" "take 2 (map fst stores) = [''argv'', ''env'']"
  shows "take 2 (map fst (obj_set n v stores)) = [''argv'', ''env'']"
proof -
  from assms(2) obtain a e rest where s: "stores = (''argv'', a) # (''env'', e) # rest"
    unfolding front_cases by blast
  from assms(1) show ?thesis unfolding s by (simp add: obj_set_def numeral_2_eq_2)
qed

lemma not_index_names:
  "\<not> is_index ''argv''" "\<not> is_index ''env''" "\<not> is_index ''overrides''"
  by (simp_all add: is_index_def is_digit_def)

lemma front_reload:
  "take 2 (map fst stores) = [''argv'', ''env'']
   \<Longrightarrow> take 2 (map fst (nconf_env h (nconf_argv h stores))) = [''argv'', ''env'']"
  by (simp add: nconf_env_def nconf_argv_def front_obj_set not_index_names)

lemma front_overrides:
  "take 2 (map fst stores) = [''argv'', ''env'']
   \<Longrightarrow> take 2 (map fst (nconf_overrides opts stores)) = [''argv'', ''env'']"
  by (simp add: nconf_overrides_def front_obj_set not_index_names)

lemma front_file:
  "\<not> is_index n \<Longrightarrow> take 2 (map fst stores) = [''argv'', ''env'']
   \<Longrightarrow> take 2 (map fst (snd (nconf_file h n p stores))) = [''argv'', ''env'']"
  by (auto simp: nconf_file_def front_obj_set Let_def split: option.splits fsnode.splits)

lemma front_shape_log:
  "front_shape s \<Longrightarrow> front_shape (info msg s)"
  "front_shape s \<Longrightarrow> front_shape (warn msg s)"
  "front_shape s \<Longrightarrow> front_shape (error msg s)"
  by (simp_all add: front_shape_def info_def warn_def error_def)

lemma front_shape_same: "nconf s' = nconf s \<Longrightarrow> front_shape s \<Longrightarrow> front_shape s'"
  by (simp add: front_shape_def)

lemma nconf_getConfigFilePath: "nconf (snd (getConfigFilePath h n s)) = nconf s"
  by (simp add: getConfigFilePath_def Let_def info_def warn_def error_def split: option.splits)

lemma front_after_file:
  assumes "front_shape s1" "\<not> is_index n"
    and g: "\<And>st. take 2 (map fst st) = [''argv'', ''env'']
              \<Longrightarrow> take 2 (map fst (g st)) = [''argv'', ''env'']"
  shows "front_shape
           (snd (case nconf s1 of
                   None \<Rightarrow> (Inl TypeError, s1)
                 | Some stores \<Rightarrow>
                     (case nconf_file h n p stores of
                        (Some e, stores1) \<Rightarrow> (Inl e, s1\<lparr>nconf := Some stores1\<rparr>)
                      | (None, stores1) \<Rightarrow> (Inr (), s1\<lparr>nconf := Some (g stores1)\<rparr>))))"
proof (cases "nconf s1")
  case None
  with assms show ?thesis by simp
next
  case (Some stores)
  obtain r stores1 where f: "nconf_file h n p stores = (r, stores1)" by (cases "nconf_file h n p stores")
  from assms(1) Some have "take 2 (map fst stores) = [''argv'', ''env'']"
    by (simp add: front_shape_def)
  with front_file [OF assms(2), of stores h p] f
  have 1: "take 2 (map fst stores1) = [''argv'', ''env'']" by simp
  then have 2: "take 2 (map fst (g stores1)) = [''argv'', ''env'']" by (rule g)
  from Some f 1 2 show ?thesis by (cases r) (simp_all add: front_shape_def)
qed

lemma front_loadConfig:
  assumes "front_shape s" "\<not> is_index n"
  shows "front_shape (snd (loadConfig h n s))"
proof -
  obtain r s1 where g: "getConfigFilePath h n s = (r, s1)" by (cases "getConfigFilePath h n s")
  with nconf_getConfigFilePath [of h n s] have "nconf s1 = nconf s" by simp
  with assms(1) have f1: "front_shape s1" by (simp add: front_shape_def)
  show ?thesis
  proof (cases r)
    case (Inl e)
    with g f1 show ?thesis by (simp add: loadConfig_def)
  next
    case (Inr p)
    with g front_after_file [OF f1 assms(2), where h = h and p = p
        and g = "\<lambda>st. nconf_env h (nconf_argv h st)", OF front_reload]
    show ?thesis by (simp add: loadConfig_def)
  qed
qed

lemma front_loadConfigWithPath:
  assumes "front_shape s" "\<not> is_index n"
  shows "front_shape (snd (loadConfigWithPath h n p s))"
proof (cases "existsSync h p")
  case True
  with front_after_file [OF front_shape_log(1) [OF assms(1)] assms(2), where h = h and p = "Some p"
        and g = "\<lambda>st. nconf_env h (nconf_argv h st)", OF front_reload]
  show ?thesis by (simp add: loadConfigWithPath_def Let_def)
next
  case False
  with assms show ?thesis by (simp add: loadConfigWithPath_def front_shape_log)
qed

lemma front_setEnvironmentName:
  assumes "front_shape s"
  shows "front_shape (snd (setEnvironmentName h d s))"
proof -
  let ?s1 = "after_resolving ''Setting environment name to: '' h d s"
  from assms obtain stores where n: "nconf ?s1 = Some stores"
      and f: "take 2 (map fst stores) = [''argv'', ''env'']"
    by (auto simp: front_shape_def after_resolving_fields split: option.splits)
  from f have "take 2 (map fst (nconf_overrides opts stores)) = [''argv'', ''env'']" for opts
    by (rule front_overrides)
  with n show ?thesis by (simp add: setEnvironmentName_unfold front_shape_def)
qed

lemma front_loadEnvironmentVariables:
  "front_shape s \<Longrightarrow> front_shape (snd (loadEnvironmentVariables h s))"
  by (cases "nconf s")
     (simp_all add: loadEnvironmentVariables_def front_shape_def front_reload)

lemma front_loadEnvironmentConfig:
  assumes "front_shape s" "\<not> is_index (resolved_name h d)"
  shows "front_shape (snd (loadEnvironmentConfig h d s))"
proof -
  let ?s1 = "after_resolving ''Running as: '' h d s"
  let ?n = "resolved_name h d"
  obtain r s2 where g: "getConfigFilePath h ?n ?s1 = (r, s2)" by (cases "getConfigFilePath h ?n ?s1")
  with nconf_getConfigFilePath [of h ?n ?s1] have "nconf s2 = nconf s"
    by (simp add: after_resolving_fields)
  with assms(1) have f2: "front_shape s2" by (simp add: front_shape_def)
  show ?thesis
  proof (cases r)
    case (Inl e)
    with g f2 show ?thesis by (simp add: loadEnvironmentConfig_unfold)
  next
    case (Inr p)
    from f2 obtain stores where Some: "nconf s2 = Some stores"
      and f: "take 2 (map fst stores) = [''argv'', ''env'']"
      by (auto simp: front_shape_def split: option.splits)
    obtain e stores1 where c: "(if p \<noteq> None then nconf_file h ?n p stores else (None, stores))
         = (e, stores1)"
      by (cases "if p \<noteq> None then nconf_file h ?n p stores else (None, stores)")
    from c f front_file [OF assms(2) f, of h p]
    have f1: "take 2 (map fst stores1) = [''argv'', ''env'']" by (auto split: if_splits)
    have "loadEnvironmentConfig h d s =
            (case e of
               Some x \<Rightarrow> (Inl x, s2\<lparr>nconf := Some stores1\<rparr>)
             | None \<Rightarrow> (Inr (), s2\<lparr>nconf := Some (nconf_env h (nconf_argv h
                   (nconf_overrides [(''environmentName'', JStr ?n)] stores1)))\<rparr>))"
      unfolding loadEnvironmentConfig_unfold g using Inr Some c
      by (simp split: option.splits)
    with f1 show ?thesis
      by (cases e) (simp_all add: front_shape_def front_reload front_overrides)
  qed
qed

lemma front_setDelimiter: "front_shape s \<Longrightarrow> front_shape (setDelimiter v s)"
  by (cases v)
     (auto simp: setDelimiter_def isUndefined_def isNull_def isEmpty_def isString_def
       error_def front_shape_def)

lemma plain_operation_front: "plain_operation s s' \<Longrightarrow> front_shape s \<Longrightarrow> front_shape s'"
proof (induction rule: plain_operation.induct)
  case (plain_setDebugMode b s)
  then show ?case by (simp add: setDebugMode_def front_shape_def)
next
  case (plain_getConfigFilePath h n s)
  then show ?case by (simp add: front_shape_def nconf_getConfigFilePath)
qed (simp_all add: front_shape_log front_setEnvironmentName front_loadEnvironmentVariables
       front_loadConfig front_loadConfigWithPath front_loadEnvironmentConfig front_setDelimiter)

lemma plain_operations_front:
  "plain_operation\<^sup>*\<^sup>* s s' \<Longrightarrow> front_shape s \<Longrightarrow> front_shape s'"
  by (induction rule: rtranclp_induct) (auto intro: plain_operation_front)

lemma ServerConfig_front:
  "nconf (ServerConfig h dir lg) \<noteq> None \<Longrightarrow> front_shape (ServerConfig h dir lg)"
  by (auto simp: ServerConfig_def error_def Let_def front_shape_def nconf_env_def nconf_argv_def
      obj_set_def is_index_def is_digit_def numeral_2_eq_2 split: option.splits if_splits)

lemma plain_operation_operation: "plain_operation s s' \<Longrightarrow> operation s s'"
  by (induction rule: plain_operation.induct) (auto intro: operation.intros)

lemma reachable_front:
  assumes "nconf (ServerConfig h dir lg) \<noteq> None" "plain_operation\<^sup>*\<^sup>* (ServerConfig h dir lg) s"
  shows "\<exists>a e rest. nconf s = Some ((''argv'', a) # (''env'', e) # rest)"
proof -
  from assms have "front_shape s" by (blast intro: plain_operations_front ServerConfig_front)
  then show ?thesis by (auto simp: front_shape_def front_cases split: option.splits)
qed

lemma scan_at_name:
  assumes "map_of stores n = Some st" "memory_get st (common_path k) = v" "v \<noteq> JUndefined"
    "\<not> is_object v"
  shows "answers (precedes n stores) k = [] \<longrightarrow> provider_get h stores k = v"
    and "answers (precedes n stores) k \<noteq> [] \<and> \<not> is_object (hd (answers (precedes n stores) k))
           \<longrightarrow> provider_get h stores k = hd (answers (precedes n stores) k)"
    and "answers (precedes n stores) k \<noteq> [] \<and> is_object (hd (answers (precedes n stores) k))
           \<longrightarrow> provider_get h stores k
                 = merge h (rev (takeWhile is_object (answers (precedes n stores) k)))"
proof -
  from answers_at_name [OF assms(1) assms(2) assms(3)] obtain rest
    where eq: "answers stores k = answers (precedes n stores) k @ v # rest" by blast
  show "answers (precedes n stores) k = [] \<longrightarrow> provider_get h stores k = v"
    using assms(4) by (simp add: provider_get_answers eq)
  show "answers (precedes n stores) k \<noteq> [] \<and> \<not> is_object (hd (answers (precedes n stores) k))
           \<longrightarrow> provider_get h stores k = hd (answers (precedes n stores) k)"
    by (cases "answers (precedes n stores) k") (simp_all add: provider_get_answers eq)
  show "answers (precedes n stores) k \<noteq> [] \<and> is_object (hd (answers (precedes n stores) k))
           \<longrightarrow> provider_get h stores k
                 = merge h (rev (takeWhile is_object (answers (precedes n stores) k)))"
  proof
    assume a: "answers (precedes n stores) k \<noteq> [] \<and> is_object (hd (answers (precedes n stores) k))"
    have t: "takeWhile is_object (answers (precedes n stores) k @ v # rest)
          = takeWhile is_object (answers (precedes n stores) k)"
    proof (cases "\<forall>x\<in>set (answers (precedes n stores) k). is_object x")
      case True
      then have "takeWhile is_object (answers (precedes n stores) k @ v # rest)
          = answers (precedes n stores) k @ takeWhile is_object (v # rest)"
        by (simp add: takeWhile_append2)
      also from assms(4) have "\<dots> = answers (precedes n stores) k" by simp
      also from True have "\<dots> = takeWhile is_object (answers (precedes n stores) k)"
        by (metis takeWhile_eq_all_conv)
      finally show ?thesis .
    next
      case False
      then show ?thesis by (auto simp: takeWhile_append1)
    qed
    from a have "provider_get h stores k = merge h (rev (takeWhile is_object (answers stores k)))"
      by (intro provider_get_merges) (simp_all add: eq)
    then show "provider_get h stores k
                 = merge h (rev (takeWhile is_object (answers (precedes n stores) k)))"
      unfolding eq by (simp only: t)
  qed
qed



lemma front_after_load:
  assumes "\<exists>a e rest. stores = (''argv'', a) # (''env'', e) # rest" "\<not> is_index n"
  shows "\<exists>rest. nconf_env h (nconf_argv h (obj_set n f stores))
           = (''argv'', argvStore h) # (''env'', envStore h) # rest"
proof -
  from assms(1) have "take 2 (map fst stores) = [''argv'', ''env'']" by (simp add: front_cases)
  with assms(2) have "take 2 (map fst (obj_set n f stores)) = [''argv'', ''env'']"
    by (simp add: front_obj_set)
  then obtain a e rest where "obj_set n f stores = (''argv'', a) # (''env'', e) # rest"
    unfolding front_cases by blast
  then show ?thesis by (simp add: reload_keeps_front)
qed

lemma answers_front:
  assumes "CHR '':'' \<notin> set k"
  shows "answers ((''argv'', a) # (''env'', e) # rest) k
     = (if memory_get a [k] = JUndefined then [] else [memory_get a [k]])
       @ (if memory_get e [k] = JUndefined then [] else [memory_get e [k]])
       @ answers rest k"
  using assms by (simp add: answers_def common_path_plain)

text \<open>
  C1, as amended. After \<open>loadConfig\<close> has registered an existing JSON file under a name other
  than \<open>argv\<close> and \<open>env\<close> on a ready session, \<open>get\<close> of a top-level key of the file (a key with
  neither the delimiter nor a colon in it) is decided by the answers that the stores give in
  lookup order. When no store before the file's has the key and the value of the file is not
  an object, \<open>get\<close> returns the value of the file. When a store before the file's has the key
  and the first such answer is not an object, \<open>get\<close> returns that answer. When the first
  answer of all is an object, \<open>get\<close> returns what the library's merge makes of the object
  answers that come before the first answer that is not an object, handed over last first.
  On a session reached from a successful construction by operations that register no store
  under an array index, and for a file whose name is no array index, the stores of the command
  line and of the environment are the first two: a value of the command line that is not an
  object wins, and so does one of the environment when the command line has none.
\<close>

theorem loadConfig_precedence:
  assumes ready: "nconf s = Some stores" "configDirectory s = Some dir"
    and present: "files h (path_join dir (getConfigFileName configName)) = Some (File (Some f))"
    and name: "configName \<noteq> ''argv''" "configName \<noteq> ''env''"
    and key: "own f k = Some v" "v \<noteq> JUndefined"
      "\<not> includes_str k (delimiter s)" "CHR '':'' \<notin> set k"
  shows "\<exists>s' stores'.
           loadConfig h configName s = (Inr (), s') \<and> nconf s' = Some stores'
           \<and> map_of stores' configName = Some f
           \<and> (answers (precedes configName stores') k = [] \<and> \<not> is_object v
                \<longrightarrow> get h [k] s' = Inr v)
           \<and> (answers (precedes configName stores') k \<noteq> []
                \<and> \<not> is_object (hd (answers (precedes configName stores') k))
                \<longrightarrow> get h [k] s' = Inr (hd (answers (precedes configName stores') k)))
           \<and> (is_object (hd (answers stores' k))
                \<longrightarrow> get h [k] s'
                      = Inr (merge h (rev (takeWhile is_object (answers stores' k)))))
           \<and> hd (answers stores' k)
               = (if answers (precedes configName stores') k = [] then v
                  else hd (answers (precedes configName stores') k))
           \<and> (nconf (ServerConfig h_init dir_init lg_init) \<noteq> None
                \<and> plain_operation\<^sup>*\<^sup>* (ServerConfig h_init dir_init lg_init) s \<and> \<not> is_index configName
                \<longrightarrow> take 2 stores' = [(''argv'', argvStore h), (''env'', envStore h)]
                  \<and> (memory_get (argvStore h) [k] \<noteq> JUndefined
                       \<and> \<not> is_object (memory_get (argvStore h) [k])
                       \<longrightarrow> get h [k] s' = Inr (memory_get (argvStore h) [k]))
                  \<and> (memory_get (argvStore h) [k] = JUndefined
                       \<and> memory_get (envStore h) [k] \<noteq> JUndefined
                       \<and> \<not> is_object (memory_get (envStore h) [k])
                       \<longrightarrow> get h [k] s' = Inr (memory_get (envStore h) [k])))"
proof -
  define stores' where "stores' = nconf_env h (nconf_argv h (obj_set configName f stores))"
  define s' where
    "s' = (info (''Loading config file: '' @ getConfigFileName configName) s)\<lparr>nconf := Some stores'\<rparr>"
  have load: "loadConfig h configName s = (Inr (), s')"
    using loadConfig_present [OF ready present] by (simp add: s'_def stores'_def)
  have st: "nconf s' = Some stores'" by (simp add: s'_def)
  have delim: "\<not> includes_str k (delimiter s')" using key(3) by (simp add: s'_def info_def)
  have here: "map_of stores' configName = Some f"
    using name by (simp add: stores'_def map_of_reload map_of_obj_set)
  have val: "memory_get f (common_path k) = v"
    using key by (simp add: common_path_plain)
  note f = first_of [OF st here delim val key(2)]
  have g: "get h [k] s' = Inr (provider_get h stores' k)"
    using st delim by (rule get_plain)
  have c: "nconf (ServerConfig h_init dir_init lg_init) \<noteq> None
                \<and> plain_operation\<^sup>*\<^sup>* (ServerConfig h_init dir_init lg_init) s \<and> \<not> is_index configName
                \<longrightarrow> take 2 stores' = [(''argv'', argvStore h), (''env'', envStore h)]
                  \<and> (memory_get (argvStore h) [k] \<noteq> JUndefined
                       \<and> \<not> is_object (memory_get (argvStore h) [k])
                       \<longrightarrow> get h [k] s' = Inr (memory_get (argvStore h) [k]))
                  \<and> (memory_get (argvStore h) [k] = JUndefined
                       \<and> memory_get (envStore h) [k] \<noteq> JUndefined
                       \<and> \<not> is_object (memory_get (envStore h) [k])
                       \<longrightarrow> get h [k] s' = Inr (memory_get (envStore h) [k]))"
  proof
    assume a: "nconf (ServerConfig h_init dir_init lg_init) \<noteq> None
                \<and> plain_operation\<^sup>*\<^sup>* (ServerConfig h_init dir_init lg_init) s \<and> \<not> is_index configName"
    with reachable_front [of h_init dir_init lg_init s] ready(1)
    have "\<exists>a e rest. stores = (''argv'', a) # (''env'', e) # rest" by simp
    with a front_after_load [of stores configName h f] obtain rest
      where shape: "stores' = (''argv'', argvStore h) # (''env'', envStore h) # rest"
      unfolding stores'_def by blast
    have ans: "answers stores' k
        = (if memory_get (argvStore h) [k] = JUndefined then [] else [memory_get (argvStore h) [k]])
          @ (if memory_get (envStore h) [k] = JUndefined then [] else [memory_get (envStore h) [k]])
          @ answers rest k"
      unfolding shape using key(4) by (rule answers_front)
    have 1: "take 2 stores' = [(''argv'', argvStore h), (''env'', envStore h)]"
      by (simp add: shape numeral_2_eq_2)
    have 2: "memory_get (argvStore h) [k] \<noteq> JUndefined
                       \<and> \<not> is_object (memory_get (argvStore h) [k])
                       \<longrightarrow> get h [k] s' = Inr (memory_get (argvStore h) [k])"
      by (simp add: g provider_get_answers ans)
    have 3: "memory_get (argvStore h) [k] = JUndefined
                       \<and> memory_get (envStore h) [k] \<noteq> JUndefined
                       \<and> \<not> is_object (memory_get (envStore h) [k])
                       \<longrightarrow> get h [k] s' = Inr (memory_get (envStore h) [k])"
      by (simp add: g provider_get_answers ans)
    from 1 2 3 show "take 2 stores' = [(''argv'', argvStore h), (''env'', envStore h)]
                  \<and> (memory_get (argvStore h) [k] \<noteq> JUndefined
                       \<and> \<not> is_object (memory_get (argvStore h) [k])
                       \<longrightarrow> get h [k] s' = Inr (memory_get (argvStore h) [k]))
                  \<and> (memory_get (argvStore h) [k] = JUndefined
                       \<and> memory_get (envStore h) [k] \<noteq> JUndefined
                       \<and> \<not> is_object (memory_get (envStore h) [k])
                       \<longrightarrow> get h [k] s' = Inr (memory_get (envStore h) [k]))"
      by (intro conjI)
  qed
  show ?thesis
    by (intro exI [of _ s'] exI [of _ stores'] conjI) (rule load st here f(1) f(2) f(3) f(5) c)+
qed

text \<open>
  C4, as amended. On a ready session \<open>loadEnvironmentConfig\<close> resolves the environment name
  from \<^verbatim>\<open>NODE_ENV\<close> when that is set and not empty, else from the last command-line argument
  when \<^verbatim>\<open>process.argv\<close> is longer than two, else from the default; when the file of that
  name is absent or holds JSON the call returns normally and records the name in the overrides
  store. \<open>getEnvironmentName\<close> then returns the name when no store before the overrides has a
  key \<open>environmentName\<close>; the first answer of the stores before the overrides when that is not
  an object; and, when it is an object, what the library's merge makes of the object answers
  that come before the first answer that is not an object, handed over last first.
\<close>

theorem loadEnvironmentConfig_records_name:
  assumes ready: "nconf s = Some stores" "configDirectory s = Some dir"
    and ok: "parses h (path_join dir (getConfigFileName (resolved_name h d)))"
  shows "\<exists>s' stores'.
           loadEnvironmentConfig h d s = (Inr (), s') \<and> nconf s' = Some stores'
           \<and> map_of stores' ''overrides'' = Some (override_store (resolved_name h d))
           \<and> (answers (precedes ''overrides'' stores') ''environmentName'' = []
                \<longrightarrow> getEnvironmentName h s' = Inr (JStr (resolved_name h d)))
           \<and> (answers (precedes ''overrides'' stores') ''environmentName'' \<noteq> []
                \<and> \<not> is_object (hd (answers (precedes ''overrides'' stores') ''environmentName''))
                \<longrightarrow> getEnvironmentName h s'
                      = Inr (hd (answers (precedes ''overrides'' stores') ''environmentName'')))
           \<and> (answers (precedes ''overrides'' stores') ''environmentName'' \<noteq> []
                \<and> is_object (hd (answers (precedes ''overrides'' stores') ''environmentName''))
                \<longrightarrow> getEnvironmentName h s'
                      = Inr (merge h (rev (takeWhile is_object
                              (answers (precedes ''overrides'' stores') ''environmentName'')))))"
proof -
  let ?ov = "override_store (resolved_name h d)"
  from loadEnvironmentConfig_ok [OF ready ok] obtain s' stores1
    where run: "loadEnvironmentConfig h d s = (Inr (), s')"
      and st: "nconf s' = Some (nconf_env h (nconf_argv h (obj_set ''overrides'' ?ov stores1)))"
    by blast
  define stores' where "stores' = nconf_env h (nconf_argv h (obj_set ''overrides'' ?ov stores1))"
  have st': "nconf s' = Some stores'" using st by (simp add: stores'_def)
  have here: "map_of stores' ''overrides'' = Some ?ov"
    by (simp add: stores'_def map_of_after_override)
  have val: "memory_get ?ov (common_path ''environmentName'') = JStr (resolved_name h d)"
    by (rule override_store_value)
  have g: "getEnvironmentName h s' = Inr (provider_get h stores' ''environmentName'')"
    using st' by (simp add: getEnvironmentName_def)
  have ne: "JStr (resolved_name h d) \<noteq> JUndefined" by simp
  have sc: "\<not> is_object (JStr (resolved_name h d))" by (simp add: is_object_def)
  note f = scan_at_name [OF here val ne sc]
  have c1: "answers (precedes ''overrides'' stores') ''environmentName'' = []
                \<longrightarrow> getEnvironmentName h s' = Inr (JStr (resolved_name h d))"
    using f(1) by (simp add: g)
  have c2: "answers (precedes ''overrides'' stores') ''environmentName'' \<noteq> []
                \<and> \<not> is_object (hd (answers (precedes ''overrides'' stores') ''environmentName''))
                \<longrightarrow> getEnvironmentName h s'
                      = Inr (hd (answers (precedes ''overrides'' stores') ''environmentName''))"
    using f(2) by (simp add: g)
  have c3: "answers (precedes ''overrides'' stores') ''environmentName'' \<noteq> []
                \<and> is_object (hd (answers (precedes ''overrides'' stores') ''environmentName''))
                \<longrightarrow> getEnvironmentName h s'
                      = Inr (merge h (rev (takeWhile is_object
                              (answers (precedes ''overrides'' stores') ''environmentName''))))"
    using f(3) by (simp add: g)
  show ?thesis
    by (intro exI [of _ s'] exI [of _ stores'] conjI) (rule run st' here c1 c2 c3)+
qed


section \<open>The example directory, evaluated\<close>

lemma example_ready:
  "nconf example_session
     = Some [(''argv'', JObj [(''verbose'', JBool True)]), (''env'', JObj [(''HOME'', JStr ''/root'')])]"
  "configDirectory example_session = Some ''cfg''"
  "delimiter example_session = ''.''"
  by (simp_all add: example_defs)

lemma example_all:
  "nconf (snd (loadConfig example_host ''all'' example_session))
     = Some [(''argv'', JObj [(''verbose'', JBool True)]), (''env'', JObj [(''HOME'', JStr ''/root'')]),
             (''all'', all_json)]"
  by (simp add: example_defs)

lemma example_all_then_local:
  "nconf (snd (loadConfig example_host ''local'' (snd (loadConfig example_host ''all'' example_session))))
     = Some [(''argv'', JObj [(''verbose'', JBool True)]), (''env'', JObj [(''HOME'', JStr ''/root'')]),
             (''all'', all_json), (''local'', local_json)]"
  by (simp add: example_defs)

lemma example_staging:
  "nconf (snd (loadEnvironmentConfig example_host ''staging'' example_session))
     = Some [(''argv'', JObj [(''verbose'', JBool True)]), (''env'', JObj [(''HOME'', JStr ''/root'')]),
             (''staging'', staging_json),
             (''overrides'', JObj [(''environmentName'', JStr ''staging''),
                                  (''type'', JStr ''literal'')])]"
  by (simp add: example_defs)

lemma example_odd:
  "nconf (snd (loadEnvironmentConfig example_host ''odd'' example_session))
     = Some [(''argv'', JObj [(''verbose'', JBool True)]), (''env'', JObj [(''HOME'', JStr ''/root'')]),
             (''odd'', odd_json),
             (''overrides'', JObj [(''environmentName'', JStr ''odd''),
                                  (''type'', JStr ''literal'')])]"
  by (simp add: example_defs)

lemma example_constructed:
  "nconf (ServerConfig example_host (Some ''cfg'') None) \<noteq> None"
  "plain_operation\<^sup>*\<^sup>* (ServerConfig example_host (Some ''cfg'') None) example_session"
  by (simp_all add: example_defs)

lemma example_names:
  "\<not> is_index ''all''" "\<not> is_index ''local''" "\<not> is_index ''staging''" "\<not> is_index ''odd''"
  by (simp_all add: is_index_def is_digit_def)

lemmas answers_defs = answers_def precedes_def common_path_def split_str_def own_def
  is_object_def all_json_def local_json_def staging_json_def odd_json_def

text \<open>
  The claim C1 as stated fails when an earlier file has the key: with \<^verbatim>\<open>all.json\<close> loaded
  before \<^verbatim>\<open>local.json\<close>, and \<open>name\<close> in neither the command line nor the environment, \<open>get\<close>
  of \<open>name\<close> is the value of \<^verbatim>\<open>all.json\<close>, not the value of the file loaded last.
\<close>

theorem loadConfig_precedence_counterexample:
  "fst (loadConfig example_host ''all'' example_session) = Inr ()
   \<and> fst (loadConfig example_host ''local'' (snd (loadConfig example_host ''all'' example_session)))
       = Inr ()
   \<and> files example_host ''cfg/local.json'' = Some (File (Some local_json))
   \<and> own local_json ''name'' = Some (JStr ''local'')
   \<and> own (argvStore example_host) ''name'' = None
   \<and> own (envStore example_host) ''name'' = None
   \<and> get example_host [''name'']
         (snd (loadConfig example_host ''local'' (snd (loadConfig example_host ''all'' example_session))))
       = Inr (JStr ''base'')"
  by (simp add: example_defs)

theorem loadConfig_precedence_witness:
  "files example_host (path_join ''cfg'' (getConfigFileName ''all''))
     = Some (File (Some (all_json)))
   \<and> \<not> includes_str ''name'' (delimiter example_session)
   \<and> loadConfig example_host ''all'' example_session
       = (Inr (), snd (loadConfig example_host ''all'' example_session))
   \<and> get example_host [''name''] (snd (loadConfig example_host ''all'' example_session))
       = Inr (JStr ''base'')
   \<and> own local_json ''name'' = Some (JStr ''local'')
   \<and> get example_host [''name'']
         (snd (loadConfig example_host ''local'' (snd (loadConfig example_host ''all'' example_session))))
       = Inr (JStr ''base'')
   \<and> own all_json ''verbose'' = Some (JBool False)
   \<and> get example_host [''verbose''] (snd (loadConfig example_host ''all'' example_session))
       = Inr (JBool True)
   \<and> own all_json ''HOME'' = Some (JStr ''/srv'')
   \<and> get example_host [''HOME''] (snd (loadConfig example_host ''all'' example_session))
       = Inr (JStr ''/root'')
   \<and> own all_json ''serverSettings'' = Some (JObj [(''port'', JNum 3000)])
   \<and> own local_json ''serverSettings'' = Some (JObj [(''host'', JStr ''localhost'')])
   \<and> get example_host [''serverSettings'']
         (snd (loadConfig example_host ''local'' (snd (loadConfig example_host ''all'' example_session))))
       = Inr (JObj [(''host'', JStr ''localhost''), (''port'', JNum 3000)])"
proof -
  let ?f = "all_json"
  let ?s1 = "snd (loadConfig example_host ''all'' example_session)"
  let ?s2 = "snd (loadConfig example_host ''local'' ?s1)"
  let ?A = "[(''argv'', JObj [(''verbose'', JBool True)]),
      (''env'', JObj [(''HOME'', JStr ''/root'')]), (''all'', all_json)]"
  let ?B = "[(''argv'', JObj [(''verbose'', JBool True)]),
      (''env'', JObj [(''HOME'', JStr ''/root'')]), (''all'', all_json), (''local'', local_json)]"
  have present: "files example_host (path_join ''cfg'' (getConfigFileName ''all''))
                   = Some (File (Some ?f))"
    by (simp add: example_defs)
  have n1: "''all'' \<noteq> ''argv''" and n2: "''all'' \<noteq> ''env''" by simp_all
  have k1: "own ?f ''name'' = Some (JStr ''base'')" by (simp add: own_def all_json_def)
  have k2: "JStr ''base'' \<noteq> JUndefined" by simp
  have k3: "\<not> includes_str ''name'' (delimiter example_session)"
    by (simp add: example_ready)
  have k4: "CHR '':'' \<notin> set ''name''" by simp
  from loadConfig_precedence [OF example_ready(1) example_ready(2) present n1 n2 k1 k2 k3 k4]
  obtain s' stores' where run: "loadConfig example_host ''all'' example_session = (Inr (), s')"
    and st: "nconf s' = Some stores'"
    and c: "answers (precedes ''all'' stores') ''name'' = [] \<and> \<not> is_object (JStr ''base'')
              \<longrightarrow> get example_host [''name''] s' = Inr (JStr ''base'')"
    by blast
  from run have s': "s' = ?s1" by simp
  with st example_all have "stores' = ?A" by simp
  then have "answers (precedes ''all'' stores') ''name'' = [] \<and> \<not> is_object (JStr ''base'')"
    by (simp add: answers_defs)
  with c have first: "get example_host [''name''] s' = Inr (JStr ''base'')" by blast
  have dir1: "configDirectory ?s1 = Some ''cfg''" by (simp add: example_defs)
  have present2: "files example_host (path_join ''cfg'' (getConfigFileName ''local''))
                   = Some (File (Some local_json))"
    by (simp add: example_defs)
  have m1: "''local'' \<noteq> ''argv''" and m2: "''local'' \<noteq> ''env''" by simp_all
  have l1: "own local_json ''name'' = Some (JStr ''local'')" by (simp add: own_def local_json_def)
  have l2: "JStr ''local'' \<noteq> JUndefined" by simp
  have l3: "\<not> includes_str ''name'' (delimiter ?s1)" by (simp add: example_defs)
  from loadConfig_precedence [OF example_all dir1 present2 m1 m2 l1 l2 l3 k4]
  obtain s2 stores2 where run2: "loadConfig example_host ''local'' ?s1 = (Inr (), s2)"
    and st2: "nconf s2 = Some stores2"
    and c2: "answers (precedes ''local'' stores2) ''name'' \<noteq> []
              \<and> \<not> is_object (hd (answers (precedes ''local'' stores2) ''name''))
              \<longrightarrow> get example_host [''name''] s2
                    = Inr (hd (answers (precedes ''local'' stores2) ''name''))"
    by blast
  from run2 have s2: "s2 = ?s2" by simp
  with st2 example_all_then_local have "stores2 = ?B" by simp
  then have "answers (precedes ''local'' stores2) ''name'' = [JStr ''base'']"
    by (simp add: answers_defs)
  with c2 have second: "get example_host [''name''] s2 = Inr (JStr ''base'')"
    by (simp add: is_object_def)
  from run s' have run': "loadConfig example_host ''all'' example_session = (Inr (), ?s1)" by simp
  have reach: "nconf (ServerConfig example_host (Some ''cfg'') None) \<noteq> None
      \<and> plain_operation\<^sup>*\<^sup>* (ServerConfig example_host (Some ''cfg'') None) example_session
      \<and> \<not> is_index ''all''"
    using example_constructed example_names by blast
  have v1: "own ?f ''verbose'' = Some (JBool False)" by (simp add: own_def all_json_def)
  have v2: "JBool False \<noteq> JUndefined" by simp
  have v3: "\<not> includes_str ''verbose'' (delimiter example_session)"
    by (simp add: example_ready)
  have v4: "CHR '':'' \<notin> set ''verbose''" by simp
  from loadConfig_precedence [OF example_ready(1) example_ready(2) present n1 n2 v1 v2 v3 v4,
      where h_init = example_host and dir_init = "Some ''cfg''" and lg_init = None]
    reach
  obtain s3 where run3: "loadConfig example_host ''all'' example_session = (Inr (), s3)"
    and c4: "memory_get (argvStore example_host) [''verbose''] \<noteq> JUndefined
         \<and> \<not> is_object (memory_get (argvStore example_host) [''verbose''])
       \<longrightarrow> get example_host [''verbose''] s3
             = Inr (memory_get (argvStore example_host) [''verbose''])"
    by blast
  have "memory_get (argvStore example_host) [''verbose''] = JBool True"
    by (simp add: example_defs)
  with c4 run3 have third: "get example_host [''verbose''] ?s1 = Inr (JBool True)"
    by (simp add: is_object_def)
  have h1: "own ?f ''HOME'' = Some (JStr ''/srv'')" by (simp add: own_def all_json_def)
  have h2: "JStr ''/srv'' \<noteq> JUndefined" by simp
  have h3: "\<not> includes_str ''HOME'' (delimiter example_session)"
    by (simp add: example_ready)
  have h4: "CHR '':'' \<notin> set ''HOME''" by simp
  from loadConfig_precedence [OF example_ready(1) example_ready(2) present n1 n2 h1 h2 h3 h4,
      where h_init = example_host and dir_init = "Some ''cfg''" and lg_init = None]
    reach
  obtain s4 where run4: "loadConfig example_host ''all'' example_session = (Inr (), s4)"
    and c5: "memory_get (argvStore example_host) [''HOME''] = JUndefined
         \<and> memory_get (envStore example_host) [''HOME''] \<noteq> JUndefined
         \<and> \<not> is_object (memory_get (envStore example_host) [''HOME''])
       \<longrightarrow> get example_host [''HOME''] s4
             = Inr (memory_get (envStore example_host) [''HOME''])"
    by blast
  have "memory_get (argvStore example_host) [''HOME''] = JUndefined
      \<and> memory_get (envStore example_host) [''HOME''] = JStr ''/root''"
    by (simp add: example_defs)
  with c5 run4 have fourth: "get example_host [''HOME''] ?s1 = Inr (JStr ''/root'')"
    by (simp add: is_object_def)
  have o0: "own ?f ''serverSettings'' = Some (JObj [(''port'', JNum 3000)])"
    by (simp add: own_def all_json_def)
  have o1: "own local_json ''serverSettings'' = Some (JObj [(''host'', JStr ''localhost'')])"
    by (simp add: own_def local_json_def)
  have o2: "JObj [(''host'', JStr ''localhost'')] \<noteq> JUndefined" by simp
  have o3: "\<not> includes_str ''serverSettings'' (delimiter ?s1)" by (simp add: example_defs)
  have o4: "CHR '':'' \<notin> set ''serverSettings''" by simp
  from loadConfig_precedence [OF example_all dir1 present2 m1 m2 o1 o2 o3 o4]
  obtain s5 stores5 where run5: "loadConfig example_host ''local'' ?s1 = (Inr (), s5)"
    and st5: "nconf s5 = Some stores5"
    and c6: "is_object (hd (answers stores5 ''serverSettings''))
              \<longrightarrow> get example_host [''serverSettings''] s5
                    = Inr (merge example_host
                             (rev (takeWhile is_object (answers stores5 ''serverSettings''))))"
    by blast
  from run5 have s5: "s5 = ?s2" by simp
  with st5 example_all_then_local have "stores5 = ?B" by simp
  then have a5: "answers stores5 ''serverSettings''
      = [JObj [(''port'', JNum 3000)], JObj [(''host'', JStr ''localhost'')]]"
    by (simp add: answers_defs)
  have "merge example_host [JObj [(''host'', JStr ''localhost'')], JObj [(''port'', JNum 3000)]]
      = JObj [(''host'', JStr ''localhost''), (''port'', JNum 3000)]"
    by (simp add: example_host_def example_merge_def obj_set_def is_index_def is_digit_def)
  with c6 a5 have fifth: "get example_host [''serverSettings''] s5
      = Inr (JObj [(''host'', JStr ''localhost''), (''port'', JNum 3000)])"
    by (simp add: is_object_def)
  from present k3 run' first [unfolded s'] l1 second [unfolded s2] v1 third h1 fourth
    o0 o1 fifth [unfolded s5]
  show ?thesis by (intro conjI)
qed

text \<open>
  The claim C4 as stated fails when the loaded file itself has a key \<open>environmentName\<close>: the
  file is registered before the overrides, and \<open>getEnvironmentName\<close> returns the file's value.
\<close>

theorem loadEnvironmentConfig_records_name_counterexample:
  "NODE_ENV example_host = None \<and> length (argv example_host) = 2
   \<and> fst (loadEnvironmentConfig example_host ''staging'' example_session) = Inr ()
   \<and> getEnvironmentName example_host
         (snd (loadEnvironmentConfig example_host ''staging'' example_session))
       = Inr (JStr ''blue'')
   \<and> getEnvironmentName example_host
         (snd (loadEnvironmentConfig example_host ''staging'' example_session))
       \<noteq> Inr (JStr ''staging'')"
  by (simp add: example_defs)

lemma production_run:
  "nconf (snd (loadEnvironmentConfig production_host ''local'' example_session))
     = Some [(''argv'', JObj [(''verbose'', JBool True)]), (''env'', JObj [(''HOME'', JStr ''/root'')]),
             (''overrides'', JObj [(''environmentName'', JStr ''production''),
                                  (''type'', JStr ''literal'')])]"
  by (simp add: example_defs)

theorem loadEnvironmentConfig_records_name_witness:
  "resolved_name production_host ''local'' = ''production''
   \<and> files production_host ''cfg/production.json'' = None
   \<and> fst (loadEnvironmentConfig production_host ''local'' example_session) = Inr ()
   \<and> getEnvironmentName production_host
         (snd (loadEnvironmentConfig production_host ''local'' example_session))
       = Inr (JStr ''production'')
   \<and> get production_host [''name'']
         (snd (loadEnvironmentConfig production_host ''local'' example_session))
       = Inr JUndefined
   \<and> resolved_name example_host ''staging'' = ''staging''
   \<and> getEnvironmentName example_host
         (snd (loadEnvironmentConfig example_host ''staging'' example_session))
       = Inr (JStr ''blue'')
   \<and> resolved_name example_host ''odd'' = ''odd''
   \<and> getEnvironmentName example_host
         (snd (loadEnvironmentConfig example_host ''odd'' example_session))
       = Inr (JObj [(''color'', JStr ''blue'')])"
proof -
  have name: "resolved_name production_host ''local'' = ''production''"
    by (simp add: resolved_name_def example_defs)
  have absent: "files production_host ''cfg/production.json'' = None"
    by (simp add: example_defs)
  have ok: "parses production_host
              (path_join ''cfg'' (getConfigFileName (resolved_name production_host ''local'')))"
    unfolding name by (simp add: parses_def example_defs)
  from loadEnvironmentConfig_records_name [OF example_ready(1) example_ready(2) ok]
  obtain s' stores'
    where run: "loadEnvironmentConfig production_host ''local'' example_session = (Inr (), s')"
      and st: "nconf s' = Some stores'"
      and c: "answers (precedes ''overrides'' stores') ''environmentName'' = []
                \<longrightarrow> getEnvironmentName production_host s'
                      = Inr (JStr (resolved_name production_host ''local''))"
    by blast
  from run have s': "s' = snd (loadEnvironmentConfig production_host ''local'' example_session)"
    by simp
  with st production_run have stores': "stores' = [(''argv'', JObj [(''verbose'', JBool True)]),
      (''env'', JObj [(''HOME'', JStr ''/root'')]),
      (''overrides'', JObj [(''environmentName'', JStr ''production''),
                           (''type'', JStr ''literal'')])]"
    by simp
  then have "answers (precedes ''overrides'' stores') ''environmentName'' = []"
    by (simp add: answers_defs)
  with c name have e: "getEnvironmentName production_host s' = Inr (JStr ''production'')" by simp
  have g: "get production_host [''name''] s' = Inr JUndefined"
    using st stores' production_run s'
    by (simp add: get_def example_defs)
  from run have r: "fst (loadEnvironmentConfig production_host ''local'' example_session) = Inr ()"
    by simp
  have name2: "resolved_name example_host ''staging'' = ''staging''"
    by (simp add: resolved_name_def example_defs)
  have ok2: "parses example_host
              (path_join ''cfg'' (getConfigFileName (resolved_name example_host ''staging'')))"
    unfolding name2 by (simp add: parses_def example_defs)
  from loadEnvironmentConfig_records_name [OF example_ready(1) example_ready(2) ok2]
  obtain s2 stores2
    where run2: "loadEnvironmentConfig example_host ''staging'' example_session = (Inr (), s2)"
      and st2: "nconf s2 = Some stores2"
      and c2: "answers (precedes ''overrides'' stores2) ''environmentName'' \<noteq> []
                \<and> \<not> is_object (hd (answers (precedes ''overrides'' stores2) ''environmentName''))
                \<longrightarrow> getEnvironmentName example_host s2
                      = Inr (hd (answers (precedes ''overrides'' stores2) ''environmentName''))"
    by blast
  from run2 have s2: "s2 = snd (loadEnvironmentConfig example_host ''staging'' example_session)"
    by simp
  with st2 example_staging
  have "stores2 = [(''argv'', JObj [(''verbose'', JBool True)]),
      (''env'', JObj [(''HOME'', JStr ''/root'')]), (''staging'', staging_json),
      (''overrides'', JObj [(''environmentName'', JStr ''staging''), (''type'', JStr ''literal'')])]"
    by simp
  then have "answers (precedes ''overrides'' stores2) ''environmentName'' = [JStr ''blue'']"
    by (simp add: answers_defs)
  with c2 have e2: "getEnvironmentName example_host s2 = Inr (JStr ''blue'')"
    by (simp add: is_object_def)
  have name3: "resolved_name example_host ''odd'' = ''odd''"
    by (simp add: resolved_name_def example_defs)
  have ok3: "parses example_host
              (path_join ''cfg'' (getConfigFileName (resolved_name example_host ''odd'')))"
    unfolding name3 by (simp add: parses_def example_defs)
  from loadEnvironmentConfig_records_name [OF example_ready(1) example_ready(2) ok3]
  obtain s3 stores3
    where run3: "loadEnvironmentConfig example_host ''odd'' example_session = (Inr (), s3)"
      and st3: "nconf s3 = Some stores3"
      and c3: "answers (precedes ''overrides'' stores3) ''environmentName'' \<noteq> []
                \<and> is_object (hd (answers (precedes ''overrides'' stores3) ''environmentName''))
                \<longrightarrow> getEnvironmentName example_host s3
                      = Inr (merge example_host (rev (takeWhile is_object
                              (answers (precedes ''overrides'' stores3) ''environmentName''))))"
    by blast
  from run3 have s3: "s3 = snd (loadEnvironmentConfig example_host ''odd'' example_session)"
    by simp
  with st3 example_odd
  have "stores3 = [(''argv'', JObj [(''verbose'', JBool True)]),
      (''env'', JObj [(''HOME'', JStr ''/root'')]), (''odd'', odd_json),
      (''overrides'', JObj [(''environmentName'', JStr ''odd''), (''type'', JStr ''literal'')])]"
    by simp
  then have a3: "answers (precedes ''overrides'' stores3) ''environmentName''
      = [JObj [(''color'', JStr ''blue'')]]"
    by (simp add: answers_defs)
  have "merge example_host [JObj [(''color'', JStr ''blue'')]] = JObj [(''color'', JStr ''blue'')]"
    by (simp add: example_host_def example_merge_def obj_set_def is_index_def is_digit_def)
  with c3 a3 have e3: "getEnvironmentName example_host s3 = Inr (JObj [(''color'', JStr ''blue'')])"
    by (simp add: is_object_def)
  from name absent r e [unfolded s'] g [unfolded s'] name2 e2 [unfolded s2] name3 e3 [unfolded s3]
  show ?thesis by (intro conjI)
qed





section \<open>A missing file\<close>

lemma loadConfig_absent:
  assumes "nconf s = Some stores" "configDirectory s = Some dir"
    and "files h (path_join dir (getConfigFileName configName)) = None"
  shows "loadConfig h configName s =
           (Inl TypeError,
            error (''Failed to load config file for configuration: '' @ configName) s)"
  using assms
  by (simp add: loadConfig_def getConfigFilePath_absent nconf_file_def error_def)

text \<open>
  C3. \<open>loadConfig\<close> of a name whose file is missing logs the failure and leaves every store as
  it was, but it hands the undefined path on to the store library, which throws a
  \<^verbatim>\<open>TypeError\<close>; \<open>loadEnvironmentConfig\<close>, which checks the path first, returns normally on the
  same input.
\<close>

theorem loadConfig_missing_file_throws:
  "files example_host (path_join ''cfg'' (getConfigFileName ''missing'')) = None
   \<and> loadConfig example_host ''missing'' example_session
       = (Inl TypeError,
          error ''Failed to load config file for configuration: missing'' example_session)
   \<and> nconf (snd (loadConfig example_host ''missing'' example_session)) = nconf example_session
   \<and> fst (loadEnvironmentConfig example_host ''missing'' example_session) = Inr ()"
  by (simp add: example_defs)

section \<open>Traversal\<close>

lemma get_prop_throws: "get_prop h v k = Inl e \<longleftrightarrow> e = TypeError \<and> (v = JUndefined \<or> v = JNull)"
  by (cases v) (auto simp: get_prop_def split: option.splits)

lemma get_prop_absent:
  assumes "v \<noteq> JUndefined" "v \<noteq> JNull" "own v k = None" "builtin h v k = None"
  shows "get_prop h v k = Inr JUndefined"
  using assms by (cases v) (simp_all add: get_prop_def)

lemma get_prop_builtin:
  assumes "v \<noteq> JUndefined" "v \<noteq> JNull" "own v k = None" "builtin h v k = Some x"
  shows "get_prop h v k = Inr x"
  using assms by (cases v) (simp_all add: get_prop_def)

lemma get_prop_own:
  assumes "v \<noteq> JUndefined" "v \<noteq> JNull" "own v k = Some x"
  shows "get_prop h v k = Inr x"
  using assms by (cases v) (simp_all add: get_prop_def)

lemma get_prop_nullish:
  "get_prop h JUndefined k = Inl TypeError"
  "get_prop h JNull k = Inl TypeError"
  by (simp_all add: get_prop_def)

lemma traverse_nullish:
  "traverse h d JUndefined (b # ks) = Inl TypeError"
  "traverse h d JNull (b # ks) = Inl TypeError"
  by (simp_all add: get_prop_def)

lemma traverse_append:
  "traverse h d v (ks @ rest)
     = (case traverse h d v ks of Inl e \<Rightarrow> Inl e | Inr w \<Rightarrow> traverse h d w rest)"
  by (induction ks arbitrary: v) (simp_all split: sum.splits)

lemma traverse_throws: "traverse h d v ks = Inl e \<Longrightarrow> e = TypeError"
proof (induction ks arbitrary: v)
  case Nil
  then show ?case by simp
next
  case (Cons k ks)
  show ?case
  proof (cases "get_prop h v (cleanKey k d)")
    case (Inl x)
    with Cons.prems have "e = x" by simp
    with Inl show ?thesis by (simp add: get_prop_throws)
  next
    case (Inr w)
    with Cons.prems have "traverse h d w ks = Inl e" by simp
    then show ?thesis by (rule Cons.IH)
  qed
qed

lemma get_ready:
  "nconf s = Some stores \<Longrightarrow>
   get h (a # ks) s = traverse h (delimiter s) (provider_get h stores (cleanKey a (delimiter s))) ks"
  by (simp add: get_def)

lemma get_step:
  assumes "nconf s = Some stores"
  shows "get h (a # ks @ rest) s
     = (case get h (a # ks) s of Inl e \<Rightarrow> Inl e | Inr w \<Rightarrow> traverse h (delimiter s) w rest)"
  using assms by (simp add: get_ready traverse_append)

text \<open>
  C2, as amended. On a ready session \<open>get\<close> of one key is the lookup of the resolved key in
  the stores, and \<open>get\<close> of more keys goes on from there, one property for each further key,
  with no check of the value it holds. When \<open>get\<close> of some keys is \<^verbatim>\<open>undefined\<close> or \<^verbatim>\<open>null\<close>
  (as the lookup is when no store has the first key), \<open>get\<close> of these keys and any further key
  raises a \<^verbatim>\<open>TypeError\<close>. When it is any other value, \<open>get\<close> of these keys and one more is the
  own property of the value at the resolved key if it has one, else what the runtime supplies
  for the key, else \<^verbatim>\<open>undefined\<close>. A \<^verbatim>\<open>TypeError\<close> is the only exception, and once raised it is
  the result whatever keys follow.
\<close>

theorem get_traversal:
  "nconf s = Some stores \<longrightarrow>
     get h [a] s = Inr (provider_get h stores (cleanKey a (delimiter s)))
     \<and> (get h (a # ks) s = Inr w \<and> (w = JUndefined \<or> w = JNull)
          \<longrightarrow> get h (a # ks @ b # rest) s = Inl TypeError)
     \<and> (get h (a # ks) s = Inr w \<and> w \<noteq> JUndefined \<and> w \<noteq> JNull
          \<longrightarrow> (own w (cleanKey b (delimiter s)) = Some x \<longrightarrow> get h (a # ks @ [b]) s = Inr x)
            \<and> (own w (cleanKey b (delimiter s)) = None
                 \<and> builtin h w (cleanKey b (delimiter s)) = Some x
                 \<longrightarrow> get h (a # ks @ [b]) s = Inr x)
            \<and> (own w (cleanKey b (delimiter s)) = None
                 \<and> builtin h w (cleanKey b (delimiter s)) = None
                 \<longrightarrow> get h (a # ks @ [b]) s = Inr JUndefined))
     \<and> (get h (a # ks) s = Inl e \<longrightarrow> e = TypeError \<and> get h (a # ks @ rest) s = Inl TypeError)"
proof
  assume st: "nconf s = Some stores"
  have 1: "get h [a] s = Inr (provider_get h stores (cleanKey a (delimiter s)))"
    using st by (simp add: get_ready)
  have 2: "get h (a # ks) s = Inr w \<and> (w = JUndefined \<or> w = JNull)
          \<longrightarrow> get h (a # ks @ b # rest) s = Inl TypeError"
    using get_step [OF st, of h a ks "b # rest"] by (auto simp: get_prop_nullish)
  have 3: "get h (a # ks) s = Inr w \<and> w \<noteq> JUndefined \<and> w \<noteq> JNull
          \<longrightarrow> (own w (cleanKey b (delimiter s)) = Some x \<longrightarrow> get h (a # ks @ [b]) s = Inr x)
            \<and> (own w (cleanKey b (delimiter s)) = None
                 \<and> builtin h w (cleanKey b (delimiter s)) = Some x
                 \<longrightarrow> get h (a # ks @ [b]) s = Inr x)
            \<and> (own w (cleanKey b (delimiter s)) = None
                 \<and> builtin h w (cleanKey b (delimiter s)) = None
                 \<longrightarrow> get h (a # ks @ [b]) s = Inr JUndefined)"
    using get_step [OF st, of h a ks "[b]"]
    by (auto simp: get_prop_own get_prop_builtin get_prop_absent)
  have 4: "get h (a # ks) s = Inl e \<longrightarrow> e = TypeError \<and> get h (a # ks @ rest) s = Inl TypeError"
  proof
    assume e: "get h (a # ks) s = Inl e"
    with st have "e = TypeError" by (auto simp: get_ready dest: traverse_throws)
    with e get_step [OF st, of h a ks rest]
    show "e = TypeError \<and> get h (a # ks @ rest) s = Inl TypeError" by simp
  qed
  from 1 2 3 4
  show "get h [a] s = Inr (provider_get h stores (cleanKey a (delimiter s)))
     \<and> (get h (a # ks) s = Inr w \<and> (w = JUndefined \<or> w = JNull)
          \<longrightarrow> get h (a # ks @ b # rest) s = Inl TypeError)
     \<and> (get h (a # ks) s = Inr w \<and> w \<noteq> JUndefined \<and> w \<noteq> JNull
          \<longrightarrow> (own w (cleanKey b (delimiter s)) = Some x \<longrightarrow> get h (a # ks @ [b]) s = Inr x)
            \<and> (own w (cleanKey b (delimiter s)) = None
                 \<and> builtin h w (cleanKey b (delimiter s)) = Some x
                 \<longrightarrow> get h (a # ks @ [b]) s = Inr x)
            \<and> (own w (cleanKey b (delimiter s)) = None
                 \<and> builtin h w (cleanKey b (delimiter s)) = None
                 \<longrightarrow> get h (a # ks @ [b]) s = Inr JUndefined))
     \<and> (get h (a # ks) s = Inl e \<longrightarrow> e = TypeError \<and> get h (a # ks @ rest) s = Inl TypeError)"
    by (intro conjI)
qed

text \<open>
  The claim C2 as stated fails on its own example: no store has a key \<open>missing\<close>, and
  \<open>get\<close> of \<open>missing\<close> and \<open>port\<close> raises a \<^verbatim>\<open>TypeError\<close>.
\<close>

theorem get_traversal_counterexample:
  "nconf (snd (loadConfig example_host ''all'' example_session))
     = Some [(''argv'', JObj [(''verbose'', JBool True)]), (''env'', JObj [(''HOME'', JStr ''/root'')]),
             (''all'', all_json)]
   \<and> own all_json ''missing'' = None
   \<and> get example_host [''missing'', ''port''] (snd (loadConfig example_host ''all'' example_session))
       = Inl TypeError"
  by (simp add: example_defs)

theorem get_traversal_witness:
  "get example_host [''nothing''] (snd (loadConfig example_host ''all'' example_session))
     = Inr JUndefined
   \<and> get example_host [''nothing'', ''port''] (snd (loadConfig example_host ''all'' example_session))
     = Inl TypeError
   \<and> get example_host [''nothing'', ''port'', ''x'']
         (snd (loadConfig example_host ''all'' example_session))
     = Inl TypeError
   \<and> get example_host [''serverSettings''] (snd (loadConfig example_host ''all'' example_session))
     = Inr (JObj [(''port'', JNum 3000)])
   \<and> get example_host [''serverSettings'', ''port'']
         (snd (loadConfig example_host ''all'' example_session))
     = Inr (JNum 3000)
   \<and> get example_host [''serverSettings'', ''host'']
         (snd (loadConfig example_host ''all'' example_session))
     = Inr JUndefined
   \<and> get example_host [''serverSettings'', ''host'', ''name'']
         (snd (loadConfig example_host ''all'' example_session))
     = Inl TypeError"
proof -
  let ?s = "snd (loadConfig example_host ''all'' example_session)"
  let ?stores = "[(''argv'', JObj [(''verbose'', JBool True)]),
                  (''env'', JObj [(''HOME'', JStr ''/root'')]), (''all'', all_json)]"
  let ?v = "JObj [(''port'', JNum 3000)]"
  have st: "nconf ?s = Some ?stores" by (rule example_all)
  have dl: "delimiter ?s = ''.''" by (simp add: example_defs)
  have miss: "provider_get example_host ?stores (cleanKey ''nothing'' (delimiter ?s)) = JUndefined"
    unfolding dl by (simp add: cleanKey_def provider_get_def common_path_def split_str_def own_def
        all_json_def)
  have hit: "provider_get example_host ?stores (cleanKey ''serverSettings'' (delimiter ?s)) = ?v"
    unfolding dl by (simp add: cleanKey_def provider_get_def common_path_def split_str_def own_def
        all_json_def is_object_def example_host_def example_merge_def obj_set_def is_index_def
        is_digit_def)
  note t1 = get_traversal [where s = ?s and stores = ?stores and h = example_host
      and a = "''nothing''" and ks = "[]" and w = JUndefined and b = "''port''" and rest = "[]"]
  from t1 st miss have 1: "get example_host [''nothing''] ?s = Inr JUndefined" by simp
  with t1 st have 2: "get example_host [''nothing'', ''port''] ?s = Inl TypeError" by simp
  note t2 = get_traversal [where s = ?s and stores = ?stores and h = example_host
      and a = "''nothing''" and ks = "[''port'']" and e = TypeError and rest = "[''x'']"]
  from t2 st 2 have 3: "get example_host [''nothing'', ''port'', ''x''] ?s = Inl TypeError" by simp
  note t3 = get_traversal [where s = ?s and stores = ?stores and h = example_host
      and a = "''serverSettings''" and ks = "[]" and w = ?v and b = "''port''" and x = "JNum 3000"]
  from t3 st hit have 4: "get example_host [''serverSettings''] ?s = Inr ?v" by simp
  have p: "own ?v (cleanKey ''port'' (delimiter ?s)) = Some (JNum 3000)"
    unfolding dl by (simp add: cleanKey_def own_def)
  from t3 st 4 p have 5: "get example_host [''serverSettings'', ''port''] ?s = Inr (JNum 3000)"
    by simp
  note t4 = get_traversal [where s = ?s and stores = ?stores and h = example_host
      and a = "''serverSettings''" and ks = "[]" and w = ?v and b = "''host''"]
  have q: "own ?v (cleanKey ''host'' (delimiter ?s)) = None
      \<and> builtin example_host ?v (cleanKey ''host'' (delimiter ?s)) = None"
    unfolding dl by (simp add: cleanKey_def own_def example_host_def)
  from t4 st 4 q have 6: "get example_host [''serverSettings'', ''host''] ?s = Inr JUndefined"
    by simp
  note t5 = get_traversal [where s = ?s and stores = ?stores and h = example_host
      and a = "''serverSettings''" and ks = "[''host'']" and w = JUndefined and b = "''name''"
      and rest = "[]"]
  from t5 st 6 have 7: "get example_host [''serverSettings'', ''host'', ''name''] ?s = Inl TypeError"
    by simp
  from 1 2 3 4 5 6 7 show ?thesis by (intro conjI)
qed

section \<open>The default delimiter\<close>

lemma map_of_filter_other:
  "p \<noteq> k \<Longrightarrow> map_of (filter (\<lambda>q. fst q \<noteq> k) kvs) p = map_of kvs p"
  by (induction kvs) auto

lemma own_without_key: "p \<noteq> k \<Longrightarrow> own (without_key k v) p = own v p"
  by (cases v) (simp_all add: own_def without_key_def map_of_filter_other)

lemma memory_get_without_key:
  "path \<noteq> [] \<Longrightarrow> hd path \<noteq> k \<Longrightarrow> memory_get (without_key k v) path = memory_get v path"
  by (cases path) (simp_all add: own_without_key)

lemma answers_without_key:
  assumes "common_path key \<noteq> []" "hd (common_path key) \<noteq> k"
  shows "answers (map (\<lambda>(n, st). (n, without_key k st)) stores) key = answers stores key"
proof -
  have "map (\<lambda>p. memory_get (snd p) (common_path key)) (map (\<lambda>(n, st). (n, without_key k st)) stores)
      = map (\<lambda>p. memory_get (snd p) (common_path key)) stores"
    using assms by (induction stores) (auto simp: memory_get_without_key)
  then show ?thesis by (simp only: answers_def)
qed

lemma provider_get_without_key:
  assumes "common_path key \<noteq> []" "hd (common_path key) \<noteq> k"
  shows "provider_get h (map (\<lambda>(n, st). (n, without_key k st)) stores) key
           = provider_get h stores key"
  using assms by (simp add: provider_get_answers answers_without_key)

lemma answers_nested:
  assumes "answers front key = []" "common_path key = [a, b]"
    "own st a = Some x" "own x b = Some y" "y \<noteq> JUndefined"
  shows "answers (front @ (n, st) # rest) key = y # answers rest key"
  using assms by (simp add: answers_def)

lemma not_includes_char: "c \<notin> set s \<Longrightarrow> \<not> includes_str s [c]"
  by (induction s) auto

lemma replace_all_char_gone: "c \<notin> set r \<Longrightarrow> c \<notin> set (replace_all [c] r s)"
  by (induction s) auto

lemma split_from_chars: "p \<in> set (split_from d acc s) \<Longrightarrow> set p \<subseteq> set acc \<union> set s"
proof (induction d acc s rule: split_from.induct)
  case (1 d acc)
  then show ?case by simp
next
  case (2 d acc c cs)
  show ?case
  proof (cases "d \<noteq> [] \<and> prefix d (c # cs)")
    case True
    with 2 have "p = acc \<or> p \<in> set (split_from d [] (drop (length d) (c # cs)))" by simp
    then show ?thesis
    proof
      assume "p = acc"
      then show ?thesis by auto
    next
      assume "p \<in> set (split_from d [] (drop (length d) (c # cs)))"
      with 2 True have "set p \<subseteq> set [] \<union> set (drop (length d) (c # cs))" by blast
      moreover have "set (drop (length d) (c # cs)) \<subseteq> set (c # cs)" by (rule set_drop_subset)
      ultimately show ?thesis by auto
    qed
  next
    case False
    with 2 have "p \<in> set (split_from d (acc @ [c]) cs)" by auto
    with 2 False have "set p \<subseteq> set (acc @ [c]) \<union> set cs" by blast
    then show ?thesis by auto
  qed
qed

lemma dotted_path_head:
  assumes "CHR ''.'' \<in> set k"
  shows "common_path (cleanKey k ''.'') \<noteq> [] \<and> hd (common_path (cleanKey k ''.'')) \<noteq> k"
proof -
  let ?c = "cleanKey k ''.''"
  have c: "?c = replace_all ''.'' '':'' k" by (simp add: cleanKey_replace_all)
  have nodot: "CHR ''.'' \<notin> set ?c" unfolding c by (rule replace_all_char_gone) simp
  have path: "common_path ?c = split_from '':'' [] ?c" by (simp add: common_path_def split_str_def)
  have ne: "common_path ?c \<noteq> []" unfolding path by (rule split_from_not_Nil)
  then have "hd (common_path ?c) \<in> set (split_from '':'' [] ?c)" unfolding path by simp
  from split_from_chars [OF this] have "set (hd (common_path ?c)) \<subseteq> set ?c" by simp
  with nodot assms have "hd (common_path ?c) \<noteq> k" by auto
  with ne show ?thesis by simp
qed

lemma replace_all_past: "c \<notin> set a \<Longrightarrow> replace_all [c] r (a @ s) = a @ replace_all [c] r s"
  by (induction a) auto

lemma split_from_past:
  "c \<notin> set a \<Longrightarrow> split_from [c] acc (a @ c # s) = (acc @ a) # split_from [c] [] s"
  by (induction a arbitrary: acc) auto

lemma dotted_key:
  assumes "CHR ''.'' \<notin> set a" "CHR ''.'' \<notin> set b"
  shows "cleanKey (a @ ''.'' @ b) ''.'' = a @ '':'' @ b"
proof -
  have "replace_all ''.'' '':'' b = b"
    using assms(2) by (simp add: replace_all_absent not_includes_char)
  then show ?thesis
    using assms(1) by (simp add: cleanKey_replace_all replace_all_past)
qed

lemma colon_path:
  assumes "CHR '':'' \<notin> set a" "CHR '':'' \<notin> set b"
  shows "common_path (a @ '':'' @ b) = [a, b]"
  using assms by (simp add: common_path_def split_str_def split_from_past split_from_absent)

text \<open>
  C10. A constructed session has the dot as its delimiter, so \<open>get\<close> of a key \<open>a.b\<close> is the
  lookup of the path of \<open>a\<close> and \<open>b\<close>: where the first store that answers holds the nested value
  \<open>y\<close>, \<open>get\<close> returns \<open>y\<close> when it is not an object, and when it is an object what the library's
  merge makes of \<open>y\<close> and the object answers of the stores behind that come before the first
  answer that is not an object, handed over last first. With the dot as delimiter a key that
  contains a dot cannot be looked up literally: the result of \<open>get\<close> is the same when every
  store loses its top-level entry of that key. Once the delimiter is changed to a string that
  the key does not contain, \<open>get\<close> looks the key up as it is.
\<close>

theorem default_delimiter:
  "delimiter (ServerConfig h dir lg) = ''.''
   \<and> (nconf s = Some stores \<and> delimiter s = ''.''
        \<and> CHR ''.'' \<notin> set a \<and> CHR '':'' \<notin> set a \<and> CHR ''.'' \<notin> set b \<and> CHR '':'' \<notin> set b
      \<longrightarrow> get h [a @ ''.'' @ b] s = Inr (provider_get h stores (a @ '':'' @ b))
          \<and> common_path (a @ '':'' @ b) = [a, b]
          \<and> (\<forall>front n st rest x y.
                 stores = front @ (n, st) # rest
                 \<and> answers front (a @ '':'' @ b) = []
                 \<and> own st a = Some x \<and> own x b = Some y \<and> y \<noteq> JUndefined
               \<longrightarrow> (\<not> is_object y \<longrightarrow> get h [a @ ''.'' @ b] s = Inr y)
                   \<and> (is_object y
                        \<longrightarrow> get h [a @ ''.'' @ b] s
                              = Inr (merge h (rev (y # takeWhile is_object
                                                        (answers rest (a @ '':'' @ b))))))))
   \<and> (nconf s = Some stores \<and> delimiter s = ''.'' \<and> CHR ''.'' \<in> set k
      \<longrightarrow> get h [k] (s\<lparr>nconf := Some (map (\<lambda>(n, st). (n, without_key k st)) stores)\<rparr>)
            = get h [k] s)
   \<and> (nconf s = Some stores \<and> x \<noteq> [] \<and> \<not> includes_str k x \<and> CHR '':'' \<notin> set k
      \<longrightarrow> get h [k] (setDelimiter (JStr x) s) = Inr (provider_get h stores k)
          \<and> common_path k = [k])"
proof -
  have p1: "delimiter (ServerConfig h dir lg) = ''.''" by (rule ServerConfig_delimiter)
  have p2: "nconf s = Some stores \<and> delimiter s = ''.''
        \<and> CHR ''.'' \<notin> set a \<and> CHR '':'' \<notin> set a \<and> CHR ''.'' \<notin> set b \<and> CHR '':'' \<notin> set b
      \<longrightarrow> get h [a @ ''.'' @ b] s = Inr (provider_get h stores (a @ '':'' @ b))
          \<and> common_path (a @ '':'' @ b) = [a, b]
          \<and> (\<forall>front n st rest x y.
                 stores = front @ (n, st) # rest
                 \<and> answers front (a @ '':'' @ b) = []
                 \<and> own st a = Some x \<and> own x b = Some y \<and> y \<noteq> JUndefined
               \<longrightarrow> (\<not> is_object y \<longrightarrow> get h [a @ ''.'' @ b] s = Inr y)
                   \<and> (is_object y
                        \<longrightarrow> get h [a @ ''.'' @ b] s
                              = Inr (merge h (rev (y # takeWhile is_object
                                                        (answers rest (a @ '':'' @ b)))))))"
  proof (intro impI)
    assume hyp: "nconf s = Some stores \<and> delimiter s = ''.''
        \<and> CHR ''.'' \<notin> set a \<and> CHR '':'' \<notin> set a \<and> CHR ''.'' \<notin> set b \<and> CHR '':'' \<notin> set b"
    with dotted_key [of a b] have key: "cleanKey (a @ ''.'' @ b) (delimiter s) = a @ '':'' @ b"
      by simp
    from hyp colon_path [of a b] have path: "common_path (a @ '':'' @ b) = [a, b]" by simp
    from hyp key have g: "get h [a @ ''.'' @ b] s = Inr (provider_get h stores (a @ '':'' @ b))"
      by (simp add: get_def)
    have "\<forall>front n st rest x y.
                 stores = front @ (n, st) # rest
                 \<and> answers front (a @ '':'' @ b) = []
                 \<and> own st a = Some x \<and> own x b = Some y \<and> y \<noteq> JUndefined
               \<longrightarrow> (\<not> is_object y \<longrightarrow> get h [a @ ''.'' @ b] s = Inr y)
                   \<and> (is_object y
                        \<longrightarrow> get h [a @ ''.'' @ b] s
                              = Inr (merge h (rev (y # takeWhile is_object
                                                        (answers rest (a @ '':'' @ b))))))"
    proof (intro allI impI)
      fix front :: "(string \<times> jsval) list" and n :: string and st :: jsval
        and rest :: "(string \<times> jsval) list" and x :: jsval and y :: jsval
      assume n: "stores = front @ (n, st) # rest
                 \<and> answers front (a @ '':'' @ b) = []
                 \<and> own st a = Some x \<and> own x b = Some y \<and> y \<noteq> JUndefined"
      with path have "answers stores (a @ '':'' @ b) = y # answers rest (a @ '':'' @ b)"
        by (simp add: answers_nested)
      then have pg: "provider_get h stores (a @ '':'' @ b)
          = (if is_object y
             then merge h (rev (takeWhile is_object (y # answers rest (a @ '':'' @ b))))
             else y)"
        by (simp only: provider_get_answers list.case)
      show "(\<not> is_object y \<longrightarrow> get h [a @ ''.'' @ b] s = Inr y)
                   \<and> (is_object y
                        \<longrightarrow> get h [a @ ''.'' @ b] s
                              = Inr (merge h (rev (y # takeWhile is_object
                                                        (answers rest (a @ '':'' @ b))))))"
        unfolding g pg by simp
    qed
    with g path show "get h [a @ ''.'' @ b] s = Inr (provider_get h stores (a @ '':'' @ b))
          \<and> common_path (a @ '':'' @ b) = [a, b]
          \<and> (\<forall>front n st rest x y.
                 stores = front @ (n, st) # rest
                 \<and> answers front (a @ '':'' @ b) = []
                 \<and> own st a = Some x \<and> own x b = Some y \<and> y \<noteq> JUndefined
               \<longrightarrow> (\<not> is_object y \<longrightarrow> get h [a @ ''.'' @ b] s = Inr y)
                   \<and> (is_object y
                        \<longrightarrow> get h [a @ ''.'' @ b] s
                              = Inr (merge h (rev (y # takeWhile is_object
                                                        (answers rest (a @ '':'' @ b)))))))"
      by (intro conjI)
  qed
  have p3: "nconf s = Some stores \<and> delimiter s = ''.'' \<and> CHR ''.'' \<in> set k
      \<longrightarrow> get h [k] (s\<lparr>nconf := Some (map (\<lambda>(n, st). (n, without_key k st)) stores)\<rparr>)
            = get h [k] s"
  proof (intro impI)
    assume hyp: "nconf s = Some stores \<and> delimiter s = ''.'' \<and> CHR ''.'' \<in> set k"
    then have "common_path (cleanKey k ''.'') \<noteq> [] \<and> hd (common_path (cleanKey k ''.'')) \<noteq> k"
      by (simp add: dotted_path_head)
    then have "provider_get h (map (\<lambda>(n, st). (n, without_key k st)) stores) (cleanKey k ''.'')
        = provider_get h stores (cleanKey k ''.'')"
      by (simp add: provider_get_without_key)
    with hyp show "get h [k] (s\<lparr>nconf := Some (map (\<lambda>(n, st). (n, without_key k st)) stores)\<rparr>)
            = get h [k] s"
      by (simp add: get_def)
  qed
  have p4: "nconf s = Some stores \<and> x \<noteq> [] \<and> \<not> includes_str k x \<and> CHR '':'' \<notin> set k
      \<longrightarrow> get h [k] (setDelimiter (JStr x) s) = Inr (provider_get h stores k)
          \<and> common_path k = [k]"
    by (simp add: setDelimiter_accepts get_def cleanKey_absent common_path_plain)
  from p1 p2 p3 p4 show ?thesis by (intro conjI)
qed

theorem default_delimiter_witness:
  "get example_host [''serverSettings.port''] (snd (loadConfig example_host ''all'' example_session))
     = Inr (JNum 3000)
   \<and> get example_host [''db.pool''] (snd (loadConfig example_host ''all'' example_session))
     = Inr (JObj [(''max'', JNum 5)])
   \<and> own all_json ''a.b'' = Some (JNum 1)
   \<and> get example_host [''a.b''] (snd (loadConfig example_host ''all'' example_session))
       = Inr JUndefined
   \<and> get example_host [''a.b'']
         (setDelimiter (JStr ''/'') (snd (loadConfig example_host ''all'' example_session)))
       = Inr (JNum 1)"
proof -
  let ?s = "snd (loadConfig example_host ''all'' example_session)"
  let ?front = "[(''argv'', JObj [(''verbose'', JBool True)]),
                 (''env'', JObj [(''HOME'', JStr ''/root'')])]"
  let ?stores = "[(''argv'', JObj [(''verbose'', JBool True)]),
                  (''env'', JObj [(''HOME'', JStr ''/root'')]), (''all'', all_json)]"
  have st: "nconf ?s = Some ?stores" by (rule example_all)
  have dl: "delimiter ?s = ''.''" by (simp add: example_defs)
  note t = default_delimiter [of example_host "Some ''cfg''" None ?s ?stores
      "''serverSettings''" "''port''" "''a.b''" "''/''"]
  have chars: "CHR ''.'' \<notin> set ''serverSettings'' \<and> CHR '':'' \<notin> set ''serverSettings''
      \<and> CHR ''.'' \<notin> set ''port'' \<and> CHR '':'' \<notin> set ''port''" by simp
  from t st dl chars
  have nested: "\<forall>front n st rest x y.
        ?stores = front @ (n, st) # rest
        \<and> answers front (''serverSettings'' @ '':'' @ ''port'') = []
        \<and> own st ''serverSettings'' = Some x \<and> own x ''port'' = Some y \<and> y \<noteq> JUndefined
        \<longrightarrow> (\<not> is_object y
               \<longrightarrow> get example_host [''serverSettings'' @ ''.'' @ ''port''] ?s = Inr y)
            \<and> (is_object y
                 \<longrightarrow> get example_host [''serverSettings'' @ ''.'' @ ''port''] ?s
                       = Inr (merge example_host (rev (y # takeWhile is_object
                               (answers rest (''serverSettings'' @ '':'' @ ''port''))))))"
    by blast
  have front: "?stores = ?front @ (''all'', all_json) # []
      \<and> answers ?front (''serverSettings'' @ '':'' @ ''port'') = []
      \<and> own all_json ''serverSettings'' = Some (JObj [(''port'', JNum 3000)])
      \<and> own (JObj [(''port'', JNum 3000)]) ''port'' = Some (JNum 3000)
      \<and> JNum 3000 \<noteq> JUndefined"
    by (simp add: answers_def common_path_def split_str_def own_def all_json_def)
  have "\<not> is_object (JNum 3000)" by (simp add: is_object_def)
  with nested front
  have "get example_host [''serverSettings'' @ ''.'' @ ''port''] ?s = Inr (JNum 3000)"
    by blast
  then have 1: "get example_host [''serverSettings.port''] ?s = Inr (JNum 3000)"
    by simp
  note u = default_delimiter [of example_host "Some ''cfg''" None ?s ?stores
      "''db''" "''pool''" "''a.b''" "''/''"]
  have chars2: "CHR ''.'' \<notin> set ''db'' \<and> CHR '':'' \<notin> set ''db''
      \<and> CHR ''.'' \<notin> set ''pool'' \<and> CHR '':'' \<notin> set ''pool''" by simp
  from u st dl chars2
  have nested2: "\<forall>front n st rest x y.
        ?stores = front @ (n, st) # rest
        \<and> answers front (''db'' @ '':'' @ ''pool'') = []
        \<and> own st ''db'' = Some x \<and> own x ''pool'' = Some y \<and> y \<noteq> JUndefined
        \<longrightarrow> (\<not> is_object y \<longrightarrow> get example_host [''db'' @ ''.'' @ ''pool''] ?s = Inr y)
            \<and> (is_object y
                 \<longrightarrow> get example_host [''db'' @ ''.'' @ ''pool''] ?s
                       = Inr (merge example_host (rev (y # takeWhile is_object
                               (answers rest (''db'' @ '':'' @ ''pool''))))))"
    by blast
  have front2: "?stores = ?front @ (''all'', all_json) # []
      \<and> answers ?front (''db'' @ '':'' @ ''pool'') = []
      \<and> own all_json ''db'' = Some (JObj [(''pool'', JObj [(''max'', JNum 5)])])
      \<and> own (JObj [(''pool'', JObj [(''max'', JNum 5)])]) ''pool'' = Some (JObj [(''max'', JNum 5)])
      \<and> JObj [(''max'', JNum 5)] \<noteq> JUndefined"
    by (simp add: answers_def common_path_def split_str_def own_def all_json_def)
  have "is_object (JObj [(''max'', JNum 5)])" by (simp add: is_object_def)
  with nested2 front2
  have "get example_host [''db'' @ ''.'' @ ''pool''] ?s
      = Inr (merge example_host (rev (JObj [(''max'', JNum 5)] # takeWhile is_object
               (answers [] (''db'' @ '':'' @ ''pool'')))))"
    by blast
  then have 5: "get example_host [''db.pool''] ?s = Inr (JObj [(''max'', JNum 5)])"
    by (simp add: answers_def example_host_def example_merge_def obj_set_def is_index_def
        is_digit_def)
  have 2: "own all_json ''a.b'' = Some (JNum 1)" by (simp add: own_def all_json_def)
  have dot: "CHR ''.'' \<in> set ''a.b''" by simp
  from t st dl dot
  have same: "get example_host [''a.b'']
      (?s\<lparr>nconf := Some (map (\<lambda>(n, st). (n, without_key ''a.b'' st)) ?stores)\<rparr>)
      = get example_host [''a.b''] ?s" by blast
  have "get example_host [''a.b'']
      (?s\<lparr>nconf := Some (map (\<lambda>(n, st). (n, without_key ''a.b'' st)) ?stores)\<rparr>)
      = Inr JUndefined"
    by (simp add: get_def dl cleanKey_def split_str_def common_path_def without_key_def
        own_def all_json_def provider_get_def)
  with same have 3: "get example_host [''a.b''] ?s = Inr JUndefined" by simp
  have slash: "''/'' \<noteq> ([] :: string) \<and> \<not> includes_str ''a.b'' ''/'' \<and> CHR '':'' \<notin> set ''a.b''"
    by simp
  from t st slash have "get example_host [''a.b''] (setDelimiter (JStr ''/'') ?s)
      = Inr (provider_get example_host ?stores ''a.b'')" and "common_path ''a.b'' = [''a.b'']"
    by blast+
  then have 4: "get example_host [''a.b''] (setDelimiter (JStr ''/'') ?s) = Inr (JNum 1)"
    by (simp add: own_def all_json_def provider_get_def is_object_def)
  from 1 5 2 3 4 show ?thesis by (intro conjI)
qed

end
